theory Spec2Isabelle
  imports Complex_Main "HOL-Library.Sublist" "HOL-Library.Multiset" "HOL-Library.Log_Nat"
begin

section \<open>UDS table extraction and dataset utilities (src/data/uds\_extraction.py)\<close>

text \<open>
  A shallow embedding of the module. Python exceptions are values of \<open>error\<close>, and
  a function that can raise returns \<open>error + 'a\<close> (\<open>Inl\<close> the exception).
  Strings are lists of characters; a character stands for a code point below 256.
\<close>

datatype error = ImportError | OpenError | IndexError | KeyError | TypeError | ZeroDivisionError

subsection \<open>Strings: \<open>str.strip\<close>, \<open>str.lower\<close>, \<open>tok in text\<close>\<close>

text \<open>The code points below 256 for which Python's \<open>str.isspace\<close> holds.\<close>

definition is_space :: "char \<Rightarrow> bool" where
  "is_space c = (of_char c \<in> {9, 10, 11, 12, 13, 28, 29, 30, 31, 32, 133, 160 :: nat})"

definition strip :: "string \<Rightarrow> string" where
  "strip s = rev (dropWhile is_space (rev (dropWhile is_space s)))"

text \<open>\<open>str.lower\<close> on code points below 256: A..Z and the accented capitals move up by 32.\<close>

definition lower_char :: "char \<Rightarrow> char" where
  "lower_char c =
     (let n = (of_char c :: nat) in
      if (65 \<le> n \<and> n \<le> 90) \<or> (192 \<le> n \<and> n \<le> 222 \<and> n \<noteq> 215) then char_of (n + 32) else c)"

definition lower :: "string \<Rightarrow> string" where
  "lower s = map lower_char s"

text \<open>\<open>tok in text\<close>: \<open>tok\<close> occurs as a contiguous substring of \<open>text\<close>.\<close>

fun starts_with :: "string \<Rightarrow> string \<Rightarrow> bool" where
  "starts_with [] text = True"
| "starts_with (t # tok) [] = False"
| "starts_with (t # tok) (c # text) = (t = c \<and> starts_with tok text)"

fun contains :: "string \<Rightarrow> string \<Rightarrow> bool" where
  "contains tok [] = (tok = [])"
| "contains tok (c # text) = (starts_with tok (c # text) \<or> contains tok text)"

subsection \<open>The extracted document\<close>

text \<open>
  A cell is an optional string (\<open>None\<close> in Python is \<open>None\<close> here), a row a list of
  cells, a table a list of rows; \<open>page.extract_tables()\<close> gives the tables of a page, so
  an opened document is the list of its pages' tables. \<open>pdfplumber\<close> is the optional
  import: \<open>None\<close> when the import failed, otherwise the function that opens a path.
\<close>

type_synonym row = "string option list"
type_synonym pdf = "row list list list"
type_synonym pdfplumber = "(string \<Rightarrow> pdf option) option"

text \<open>
  \<open>pdf.pages[p]\<close> on the list of pages: an index from 0 up to the length reads from
  the front, one from minus the length up to -1 reads from the back, any other raises.
\<close>

definition py_index :: "'a list \<Rightarrow> int \<Rightarrow> error + 'a" where
  "py_index xs p =
     (if 0 \<le> p \<and> p < int (length xs) then Inr (xs ! nat p)
      else if p < 0 \<and> - int (length xs) \<le> p then Inr (xs ! nat (int (length xs) + p))
      else Inl IndexError)"

text \<open>
  The loop of \<open>extract_pdf_tables\<close> over the requested pages: the tables of a page are
  flattened into one list of rows, empty tables skipped.
\<close>

fun extract_pages :: "pdf \<Rightarrow> int list \<Rightarrow> error + row list list" where
  "extract_pages doc [] = Inr []"
| "extract_pages doc (p # ps) =
     (case py_index doc p of
        Inl e \<Rightarrow> Inl e
      | Inr tables \<Rightarrow>
          (case extract_pages doc ps of
             Inl e \<Rightarrow> Inl e
           | Inr all_pages \<Rightarrow> Inr (concat (filter (\<lambda>tbl. tbl \<noteq> []) tables) # all_pages)))"

definition extract_pdf_tables :: "pdfplumber \<Rightarrow> string \<Rightarrow> int list \<Rightarrow> error + row list list" where
  "extract_pdf_tables plumber pdf_path pages =
     (case plumber of
        None \<Rightarrow> Inl ImportError
      | Some open_pdf \<Rightarrow>
          (case open_pdf pdf_path of
             None \<Rightarrow> Inl OpenError
           | Some doc \<Rightarrow> extract_pages doc pages))"

subsection \<open>Candidate rows\<close>

text \<open>
  The three tests of \<open>_iter_variable_rows\<close> on one row, in the source's order: the
  row is skipped when it is empty or has fewer than 3 cells, skipped when cell 2 is a
  string that is "variable name" once stripped and lowercased, and yielded only when
  cell 2 is a non-empty string that is non-empty after stripping.
\<close>

definition is_header_row :: "row \<Rightarrow> bool" where
  "is_header_row r = (case r ! 2 of None \<Rightarrow> False | Some s \<Rightarrow> lower (strip s) = ''variable name'')"

definition has_variable_name :: "row \<Rightarrow> bool" where
  "has_variable_name r = (case r ! 2 of None \<Rightarrow> False | Some s \<Rightarrow> s \<noteq> [] \<and> strip s \<noteq> [])"

definition yields_row :: "row \<Rightarrow> bool" where
  "yields_row r =
     (if r = [] \<or> length r < 3 then False
      else if is_header_row r then False
      else has_variable_name r)"

definition iter_variable_rows :: "row list list \<Rightarrow> row list" where
  "iter_variable_rows all_pages_rows = concat (map (filter yields_row) all_pages_rows)"

subsection \<open>The catalog\<close>

record catalog_entry =
  form_field :: string
  variable_name :: string
  label :: string
  source_page :: int

text \<open>\<open>c or ""\<close> for a cell \<open>c\<close>, and the truth value of a cell.\<close>

definition or_empty :: "string option \<Rightarrow> string" where
  "or_empty c = (case c of None \<Rightarrow> [] | Some s \<Rightarrow> s)"

definition truthy :: "string option \<Rightarrow> bool" where
  "truthy c = (c \<noteq> None \<and> c \<noteq> Some [])"

text \<open>
  \<open>(row[0] or row[1] or "").strip() if len(row) > 1 else (row[0] or "")\<close>;
  \<open>row[0]\<close> on an empty row raises.
\<close>

fun form_field_of :: "row \<Rightarrow> error + string" where
  "form_field_of [] = Inl IndexError"
| "form_field_of [c0] = Inr (or_empty c0)"
| "form_field_of (c0 # c1 # cs) = Inr (strip (if truthy c0 then or_empty c0 else or_empty c1))"

text \<open>
  One pass of the loop body of \<open>build_variable_catalog\<close>: \<open>Inr None\<close> when the row is
  passed over (\<open>continue\<close>, or an empty variable name), \<open>Inr (Some e)\<close> when \<open>e\<close> is
  appended to \<open>records\<close>. The row has been yielded by \<open>_iter_variable_rows\<close>, where
  \<open>row[2]\<close> exists; the model raises if it does not.
\<close>

definition record_of_row :: "string list \<Rightarrow> int \<Rightarrow> row \<Rightarrow> error + catalog_entry option" where
  "record_of_row forms_filter page_idx r =
     (case form_field_of r of
        Inl e \<Rightarrow> Inl e
      | Inr ff \<Rightarrow>
          if forms_filter \<noteq> [] \<and> \<not> list_ex (\<lambda>tok. contains tok ff) forms_filter then Inr None
          else if length r < 3 then Inl IndexError
          else
            let vname = (case r ! 2 of None \<Rightarrow> [] | Some s \<Rightarrow> strip s);
                lbl = (if length r > 3 then (case r ! 3 of None \<Rightarrow> [] | Some s \<Rightarrow> strip s) else [])
            in if vname \<noteq> []
               then Inr (Some \<lparr>form_field = ff, variable_name = vname, label = lbl,
                               source_page = page_idx\<rparr>)
               else Inr None)"

text \<open>\<open>enumerate(rows, start=start)\<close>.\<close>

fun enumerate_from :: "int \<Rightarrow> 'a list \<Rightarrow> (int \<times> 'a) list" where
  "enumerate_from start [] = []"
| "enumerate_from start (x # xs) = (start, x) # enumerate_from (start + 1) xs"

fun collect_records :: "string list \<Rightarrow> (int \<times> row) list \<Rightarrow> error + catalog_entry list" where
  "collect_records forms_filter [] = Inr []"
| "collect_records forms_filter ((page_idx, r) # rest) =
     (case record_of_row forms_filter page_idx r of
        Inl e \<Rightarrow> Inl e
      | Inr new \<Rightarrow>
          (case collect_records forms_filter rest of
             Inl e \<Rightarrow> Inl e
           | Inr records \<Rightarrow> Inr ((case new of None \<Rightarrow> [] | Some e \<Rightarrow> [e]) @ records)))"

text \<open>
  \<open>DataFrame.drop_duplicates("variable_name")\<close> with its default \<open>keep='first'\<close>: a
  record is dropped when its variable name has been seen in an earlier record.
\<close>

fun drop_seen :: "string list \<Rightarrow> catalog_entry list \<Rightarrow> catalog_entry list" where
  "drop_seen seen [] = []"
| "drop_seen seen (e # es) =
     (if variable_name e \<in> set seen then drop_seen seen es
      else e # drop_seen (variable_name e # seen) es)"

definition drop_duplicates :: "catalog_entry list \<Rightarrow> catalog_entry list" where
  "drop_duplicates records = drop_seen [] records"

text \<open>
  The part of \<open>build_variable_catalog\<close> after the extraction, and the whole function.
  The catalog is the list of its entries in row order.
\<close>

definition catalog_of_rows :: "int \<Rightarrow> string list \<Rightarrow> row list list \<Rightarrow> error + catalog_entry list" where
  "catalog_of_rows start forms_filter all_pages_rows =
     (case collect_records forms_filter (enumerate_from start (iter_variable_rows all_pages_rows)) of
        Inl e \<Rightarrow> Inl e
      | Inr records \<Rightarrow> Inr (drop_duplicates records))"

definition build_variable_catalog ::
  "pdfplumber \<Rightarrow> string \<Rightarrow> int \<times> int \<Rightarrow> string list \<Rightarrow> error + catalog_entry list" where
  "build_variable_catalog plumber pdf_path page_range forms_filter =
     (case page_range of (start, end) \<Rightarrow>
        (case extract_pdf_tables plumber pdf_path [start..end] of
           Inl e \<Rightarrow> Inl e
         | Inr all_pages_rows \<Rightarrow> catalog_of_rows start forms_filter all_pages_rows))"

subsection \<open>Floating point\<close>

text \<open>
  A Python \<open>float\<close> and a \<open>float64\<close> value are doubles; a double is taken as the
  rational number it denotes. \<open>binary64 q\<close> is the double nearest to \<open>q\<close>, a tie going
  to the even mantissa: the result of every arithmetic operation and of every conversion
  of an integer to \<open>float64\<close>. The mantissa has 53 bits; the exponent is taken as
  unbounded, so the numbers are those of the normal range (quotients of counts and
  64-bit integers are).
\<close>

definition ilog2 :: "rat \<Rightarrow> int" where
  "ilog2 q =
     (case quotient_of q of
        (a, b) \<Rightarrow> let d = bitlen a - bitlen b in if 2 powi d \<le> q then d else d - 1)"

definition round_half_even :: "rat \<Rightarrow> int" where
  "round_half_even q =
     (let f = \<lfloor>q\<rfloor>; r = q - of_int f
      in if r < 1 / 2 then f else if 1 / 2 < r then f + 1 else if even f then f else f + 1)"

definition binary64 :: "rat \<Rightarrow> rat" where
  "binary64 q =
     (if q = 0 then 0
      else let e = ilog2 \<bar>q\<bar> - 52 in of_int (round_half_even (q / 2 powi e)) * 2 powi e)"

text \<open>\<open>a / b\<close> on two Python integers: the correctly rounded quotient; a zero divisor raises.\<close>

definition truediv :: "int \<Rightarrow> int \<Rightarrow> error + rat" where
  "truediv a b = (if b = 0 then Inl ZeroDivisionError else Inr (binary64 (of_int a / of_int b)))"

subsection \<open>Tables\<close>

text \<open>
  A value of a table is absent (\<open>NaN\<close>), an integer, a double, a string or a boolean. A
  table (\<open>DataFrame\<close>) is the list of its columns in column order, each with its label,
  and the number of its records; labels may repeat, as pandas allows.
\<close>

datatype cell = NA | IntV int | Num rat | Txt string | Flag bool

record dataframe =
  columns :: "(string \<times> cell list) list"
  nrows :: nat

definition wf_df :: "dataframe \<Rightarrow> bool" where
  "wf_df df = list_all (\<lambda>col. length (snd col) = nrows df) (columns df)"

definition column_names :: "dataframe \<Rightarrow> string list" where
  "column_names df = map fst (columns df)"

text \<open>\<open>series.notna()\<close> and \<open>series != missing_sentinel\<close> on one value. A boolean compares
  as 0 or 1, a string differs from every number, and \<open>NaN\<close> differs from everything. The
  sentinel is the number passed, by its value.\<close>

definition notna :: "cell \<Rightarrow> bool" where
  "notna v = (v \<noteq> NA)"

fun ne_sentinel :: "rat \<Rightarrow> cell \<Rightarrow> bool" where
  "ne_sentinel missing_sentinel NA = True"
| "ne_sentinel missing_sentinel (IntV i) = (of_int i \<noteq> missing_sentinel)"
| "ne_sentinel missing_sentinel (Num x) = (x \<noteq> missing_sentinel)"
| "ne_sentinel missing_sentinel (Txt s) = True"
| "ne_sentinel missing_sentinel (Flag b) = ((if b then 1 else 0) \<noteq> missing_sentinel)"

definition is_valid :: "rat \<Rightarrow> cell \<Rightarrow> bool" where
  "is_valid missing_sentinel v = (notna v \<and> ne_sentinel missing_sentinel v)"

text \<open>
  The dtype of a column: \<open>bool\<close> when it holds booleans only, \<open>int64\<close> when it holds
  integers only, \<open>float64\<close> when it holds doubles and \<open>NaN\<close> only, \<open>object\<close> otherwise.
\<close>

datatype dtype = Bool | Int64 | Float64 | Object

fun is_flag :: "cell \<Rightarrow> bool" where
  "is_flag (Flag b) = True"
| "is_flag v = False"

fun is_int :: "cell \<Rightarrow> bool" where
  "is_int (IntV i) = True"
| "is_int v = False"

fun is_float :: "cell \<Rightarrow> bool" where
  "is_float (Num x) = True"
| "is_float NA = True"
| "is_float v = False"

definition column_dtype :: "cell list \<Rightarrow> dtype" where
  "column_dtype vs =
     (if list_all is_flag vs then Bool
      else if list_all is_int vs then Int64
      else if list_all is_float vs then Float64
      else Object)"

text \<open>
  \<open>df.values\<close>, from which \<open>df.apply(f, axis=1)\<close> takes the records: the columns are
  brought to their common dtype. Integer and float columns together are \<open>float64\<close>, and
  every integer is converted to the nearest double; booleans beside numbers, or any
  \<open>object\<close> column, make the dtype \<open>object\<close>, and every value stays as it is.
\<close>

definition common_dtype :: "dtype list \<Rightarrow> dtype" where
  "common_dtype ds =
     (if list_all (\<lambda>d. d = Bool) ds then Bool
      else if list_all (\<lambda>d. d = Int64) ds then Int64
      else if list_all (\<lambda>d. d = Int64 \<or> d = Float64) ds then Float64
      else Object)"

fun as_dtype :: "dtype \<Rightarrow> cell \<Rightarrow> cell" where
  "as_dtype Float64 (IntV i) = Num (binary64 (of_int i))"
| "as_dtype d v = v"

definition frame_values :: "(string \<times> cell list) list \<Rightarrow> (string \<times> cell list) list" where
  "frame_values cols =
     (let d = common_dtype (map (\<lambda>col. column_dtype (snd col)) cols)
      in map (\<lambda>col. (fst col, map (as_dtype d) (snd col))) cols)"

text \<open>
  Selection of columns by a list of labels, \<open>df[labels]\<close> and \<open>df.loc[:, labels]\<close>: the
  columns come in the order of \<open>labels\<close>, every column that carries a label is taken,
  and a label that no column carries raises \<open>KeyError\<close>.
\<close>

definition take_labels :: "string list \<Rightarrow> (string \<times> cell list) list \<Rightarrow> (string \<times> cell list) list" where
  "take_labels labels cols = concat (map (\<lambda>l. filter (\<lambda>col. fst col = l) cols) labels)"

definition getitem_list :: "dataframe \<Rightarrow> string list \<Rightarrow> error + dataframe" where
  "getitem_list df labels =
     (if list_all (\<lambda>l. l \<in> set (column_names df)) labels
      then Inr (df\<lparr>columns := take_labels labels (columns df)\<rparr>)
      else Inl KeyError)"

text \<open>\<open>df[name] = values\<close>: every column labelled \<open>name\<close> is overwritten in place; when
  there is none, the column is appended.\<close>

definition setitem :: "dataframe \<Rightarrow> string \<Rightarrow> cell list \<Rightarrow> dataframe" where
  "setitem df name vals =
     (if name \<in> set (column_names df)
      then df\<lparr>columns := map (\<lambda>col. if fst col = name then (name, vals) else col) (columns df)\<rparr>
      else df\<lparr>columns := columns df @ [(name, vals)]\<rparr>)"

text \<open>The values of record \<open>i\<close> across the columns, and a function applied to every
  record of a table whose values are read as they are.\<close>

definition row_values :: "(string \<times> cell list) list \<Rightarrow> nat \<Rightarrow> cell list" where
  "row_values cols i = map (\<lambda>col. snd col ! i) cols"

definition apply_rows :: "(cell list \<Rightarrow> 'a) \<Rightarrow> dataframe \<Rightarrow> 'a list" where
  "apply_rows f df = map (\<lambda>i. f (row_values (columns df) i)) [0..<nrows df]"

subsection \<open>Column Aligner\<close>

text \<open>
  The catalog passed in is a frame that has the column \<open>variable_name\<close>: the list of
  its entries. \<open>v in df.columns\<close> keeps the catalog's names that label a column, in the
  catalog's order, and \<open>df.loc[:, vars_in_df]\<close> selects them.
\<close>

definition select_dataset_columns :: "dataframe \<Rightarrow> catalog_entry list \<Rightarrow> error + dataframe" where
  "select_dataset_columns df catalog =
     (let vars_in_df = filter (\<lambda>v. v \<in> set (column_names df)) (map variable_name catalog)
      in getitem_list df vars_in_df)"

subsection \<open>Assessment Tagger\<close>

text \<open>
  The right-hand side of both assignments of \<open>tag_assessments\<close>,
  \<open>out[cols].apply(lambda s: _is_valid(s).any(), axis=1) if cols else False\<close>:
  the records are those of the values of the selected columns, at their common dtype;
  the constant \<open>False\<close> is broadcast to every record.
\<close>

definition any_valid_flags :: "dataframe \<Rightarrow> string list \<Rightarrow> rat \<Rightarrow> error + cell list" where
  "any_valid_flags out cols missing_sentinel =
     (if cols \<noteq> []
      then (case getitem_list out cols of
              Inl e \<Rightarrow> Inl e
            | Inr sub \<Rightarrow>
                Inr (apply_rows (\<lambda>s. Flag (list_ex (is_valid missing_sentinel) s))
                       (sub\<lparr>columns := frame_values (columns sub)\<rparr>)))
      else Inr (replicate (nrows out) (Flag False)))"

definition tag_assessments ::
  "dataframe \<Rightarrow> string list \<Rightarrow> string list \<Rightarrow> rat \<Rightarrow> error + dataframe" where
  "tag_assessments df mmse_cols moca_cols missing_sentinel =
     (case any_valid_flags df mmse_cols missing_sentinel of
        Inl e \<Rightarrow> Inl e
      | Inr has_mmse \<Rightarrow>
          let out = setitem df ''has_MMSE'' has_mmse in
          (case any_valid_flags out moca_cols missing_sentinel of
             Inl e \<Rightarrow> Inl e
           | Inr has_moca \<Rightarrow> Inr (setitem out ''has_MOCA'' has_moca)))"

subsection \<open>Empty-Row Detector\<close>

text \<open>
  \<open>_row_empty\<close> on the values \<open>row[data_cols]\<close> of one record, and the mask: one flag per
  record, computed over the columns that are not excluded. The records are those of a
  tagged table, which holds the boolean columns \<open>has_MMSE\<close> and \<open>has_MOCA\<close> beside its
  numbers: the common dtype is \<open>object\<close> and the values are read as they are.
\<close>

definition row_empty :: "rat \<Rightarrow> cell list \<Rightarrow> bool" where
  "row_empty missing_sentinel vals = (\<not> list_ex (is_valid missing_sentinel) vals)"

definition compute_empty_rows_mask :: "dataframe \<Rightarrow> string list \<Rightarrow> rat \<Rightarrow> bool list" where
  "compute_empty_rows_mask df exclude missing_sentinel =
     (let data_cols = filter (\<lambda>c. c \<notin> set exclude) (column_names df)
      in apply_rows (row_empty missing_sentinel)
           (df\<lparr>columns := take_labels data_cols (columns df)\<rparr>))"

subsection \<open>Availability Summarizer\<close>

record summary_row =
  Column :: string
  Valid_Data_Count :: int
  Percentage :: rat

text \<open>
  The number of valid values of a column, \<open>int(valid.sum())\<close>; the percentage
  \<open>count / n * 100 if n else 0.0\<close>, a quotient and a product of doubles; and the row
  appended for a column \<open>col\<close> of values \<open>s\<close>.
\<close>

definition count_valid :: "rat \<Rightarrow> cell list \<Rightarrow> int" where
  "count_valid missing_sentinel s = sum_list (map (\<lambda>v. if is_valid missing_sentinel v then 1 else 0) s)"

definition percentage :: "int \<Rightarrow> nat \<Rightarrow> error + rat" where
  "percentage valid_count n =
     (if n \<noteq> 0
      then (case truediv valid_count (int n) of
              Inl e \<Rightarrow> Inl e
            | Inr q \<Rightarrow> Inr (binary64 (q * 100)))
      else Inr 0)"

definition row_of :: "dataframe \<Rightarrow> rat \<Rightarrow> string \<times> cell list \<Rightarrow> error + summary_row" where
  "row_of df missing_sentinel col =
     (let n = nrows df; count = count_valid missing_sentinel (snd col)
      in case percentage count n of
           Inl e \<Rightarrow> Inl e
         | Inr p \<Rightarrow> Inr \<lparr>Column = fst col, Valid_Data_Count = count, Percentage = p\<rparr>)"

text \<open>
  The loop of \<open>summarize_availability\<close> over \<open>df.columns\<close>. \<open>df[col]\<close> is one column when
  the label is carried once; when it is carried by several columns it is a table,
  \<open>valid.sum()\<close> is then a series of several counts and \<open>int\<close> of it raises \<open>TypeError\<close>.
\<close>

fun availability_rows ::
  "dataframe \<Rightarrow> string list \<Rightarrow> rat \<Rightarrow> (string \<times> cell list) list \<Rightarrow> error + summary_row list" where
  "availability_rows df exclude missing_sentinel [] = Inr []"
| "availability_rows df exclude missing_sentinel ((col, s) # cols) =
     (if col \<in> set exclude then availability_rows df exclude missing_sentinel cols
      else if length (filter (\<lambda>c. c = col) (column_names df)) > 1 then Inl TypeError
      else
        (case row_of df missing_sentinel (col, s) of
           Inl e \<Rightarrow> Inl e
         | Inr r \<Rightarrow>
             (case availability_rows df exclude missing_sentinel cols of
                Inl e \<Rightarrow> Inl e
              | Inr rows \<Rightarrow> Inr (r # rows))))"

text \<open>
  \<open>sort_values("Valid_Data_Count", ascending=False)\<close> is called with the default
  \<open>kind='quicksort'\<close>, which pandas documents as not stable: the result holds the same
  rows, in descending order of the key, and nothing is promised about the order of rows
  with equal keys. It is therefore a relation between the rows and a result.
\<close>

fun permutation_of :: "'a list \<Rightarrow> 'a list \<Rightarrow> bool" where
  "permutation_of [] ys = (ys = [])"
| "permutation_of (x # xs) ys = (x \<in> set ys \<and> permutation_of xs (remove1 x ys))"

definition sort_values_desc :: "summary_row list \<Rightarrow> summary_row list \<Rightarrow> bool" where
  "sort_values_desc rows summary =
     (permutation_of rows summary \<and>
      sorted_wrt (\<lambda>a b. Valid_Data_Count a \<ge> Valid_Data_Count b) summary)"

text \<open>
  \<open>summarize_availability df exclude missing_sentinel res\<close>: \<open>res\<close> is a possible outcome
  of the call. The frame of no rows has no column \<open>Valid_Data_Count\<close>, so sorting it
  raises \<open>KeyError\<close>.
\<close>

definition summarize_availability ::
  "dataframe \<Rightarrow> string list \<Rightarrow> rat \<Rightarrow> error + summary_row list \<Rightarrow> bool" where
  "summarize_availability df exclude missing_sentinel res =
     (case availability_rows df exclude missing_sentinel (columns df) of
        Inl e \<Rightarrow> res = Inl e
      | Inr rows \<Rightarrow>
          if rows = [] then res = Inl KeyError
          else (case res of Inl e \<Rightarrow> False | Inr summary \<Rightarrow> sort_values_desc rows summary))"

subsection \<open>The specification's row exclusion\<close>

text \<open>
  The rows the specification says the Catalog Builder discards, in its own words: fewer
  than 3 cells, or cell 2 trimmed and lowercased is "variable name", or cell 2 is empty
  after trimming (an absent cell counts as empty).
\<close>

definition spec_excluded :: "row \<Rightarrow> bool" where
  "spec_excluded r =
     (length r < 3 \<or>
      (case r ! 2 of
         None \<Rightarrow> True
       | Some s \<Rightarrow> lower (strip s) = ''variable name'' \<or> strip s = []))"

subsection \<open>Example documents\<close>

text \<open>A document of one page whose only table has two qualifying rows.\<close>

definition two_rows_doc :: pdf where
  "two_rows_doc =
     [[[[Some ''C1'', Some '''', Some ''C1SCORE'', Some ''MMSE Total Score''],
        [Some ''C1'', Some '''', Some ''C1MMSE'', Some ''MMSE Orientation'']]]]"

text \<open>
  A document of two pages: a header row, a short row, a row with a blank variable name,
  a variable name that occurs on both pages, and a row of another form.
\<close>

definition sample_doc :: pdf where
  "sample_doc =
     [[[[Some ''Form'', Some '''', Some '' Variable Name '', Some ''Label''],
        [Some ''C1'', Some '''', Some ''MMSE'', Some '' total ''],
        [Some ''C1'', None, Some ''  '', Some ''blank''],
        [Some ''C1'']]],
      [[[Some '''', Some ''form C2'', Some ''MMSE'', Some ''again''],
        [Some ''C2'', Some '''', Some ''MOCA''],
        [Some ''D1'', Some '''', Some ''OTHER'', None]]]]"

definition sample_plumber :: pdfplumber where
  "sample_plumber = Some (\<lambda>pdf_path. if pdf_path = ''uds.pdf'' then Some sample_doc else None)"

definition sample_pages :: "row list list" where
  "sample_pages = map concat sample_doc"

subsection \<open>The specification's notions on tables\<close>

text \<open>
  A value equals the missing sentinel (\<open>==\<close> in Python, on the values as the table holds
  them: a boolean compares as 0 or 1, a string or an absent value equals no number).
\<close>

fun eq_sentinel :: "rat \<Rightarrow> cell \<Rightarrow> bool" where
  "eq_sentinel missing_sentinel NA = False"
| "eq_sentinel missing_sentinel (IntV i) = (of_int i = missing_sentinel)"
| "eq_sentinel missing_sentinel (Num x) = (x = missing_sentinel)"
| "eq_sentinel missing_sentinel (Txt s) = False"
| "eq_sentinel missing_sentinel (Flag b) = ((if b then 1 else 0) = missing_sentinel)"

text \<open>
  The flag the specification gives record \<open>i\<close> for a group of column names: true iff some
  column of the table whose name is in the group holds a value that is neither absent nor
  equal to the sentinel; and the column of these flags.
\<close>

definition group_flag :: "dataframe \<Rightarrow> string list \<Rightarrow> rat \<Rightarrow> nat \<Rightarrow> bool" where
  "group_flag df cols missing_sentinel i =
     list_ex (\<lambda>col. fst col \<in> set cols \<and> snd col ! i \<noteq> NA \<and>
                    \<not> eq_sentinel missing_sentinel (snd col ! i)) (columns df)"

definition group_flags :: "dataframe \<Rightarrow> string list \<Rightarrow> rat \<Rightarrow> cell list" where
  "group_flags df cols missing_sentinel =
     map (\<lambda>i. Flag (group_flag df cols missing_sentinel i)) [0..<nrows df]"

text \<open>The number of values of a column that are neither absent nor equal to the sentinel.\<close>

definition spec_valid_count :: "rat \<Rightarrow> cell list \<Rightarrow> nat" where
  "spec_valid_count missing_sentinel s =
     length (filter (\<lambda>v. v \<noteq> NA \<and> \<not> eq_sentinel missing_sentinel v) s)"

text \<open>
  The order the specification gives to rows of equal count: the one of their columns in
  the table.
\<close>

definition position :: "string list \<Rightarrow> string \<Rightarrow> nat" where
  "position names c = length (takeWhile (\<lambda>x. x \<noteq> c) names)"

definition ties_in_column_order :: "string list \<Rightarrow> summary_row list \<Rightarrow> bool" where
  "ties_in_column_order names summary =
     sorted_wrt
       (\<lambda>a b. Valid_Data_Count a = Valid_Data_Count b \<longrightarrow>
               position names (Column a) < position names (Column b))
       summary"

text \<open>
  The numbers that \<open>float64\<close> holds exactly, and the tables whose integers are all such
  (every integer of magnitude up to \<open>2 ^ 53\<close> is): on these a conversion to \<open>float64\<close>
  changes no value.
\<close>

definition float64_exact :: "rat \<Rightarrow> bool" where
  "float64_exact q = (binary64 q = q)"

fun exact_cell :: "cell \<Rightarrow> bool" where
  "exact_cell (IntV i) = float64_exact (of_int i)"
| "exact_cell v = True"

definition exact_ints :: "dataframe \<Rightarrow> bool" where
  "exact_ints df = list_all (\<lambda>col. list_all exact_cell (snd col)) (columns df)"

subsection \<open>Example tables\<close>

text \<open>A table of three records; the second record holds no valid value.\<close>

definition sample_df :: dataframe where
  "sample_df =
     \<lparr>columns =
        [(''OTHERCOL'', [Txt ''x'', NA, Num (-4)]),
         (''C1SCORE'', [Num 24, Num (-4), NA]),
         (''C1MMSE'', [NA, NA, NA]),
         (''C1MOCA'', [Num 20, Num (-4), Num 3])],
      nrows = 3\<rparr>"

definition sample_catalog :: "catalog_entry list" where
  "sample_catalog =
     [\<lparr>form_field = ''C1'', variable_name = ''C1MOCA'', label = '''', source_page = 0\<rparr>,
      \<lparr>form_field = ''C1'', variable_name = ''C1SCORE'', label = '''', source_page = 1\<rparr>,
      \<lparr>form_field = ''C1'', variable_name = ''C1ABSENT'', label = '''', source_page = 2\<rparr>]"

text \<open>A table that already carries a column \<open>has_MMSE\<close>, and a table of one score.\<close>

definition retagged_df :: dataframe where
  "retagged_df = \<lparr>columns = [(''has_MMSE'', [NA])], nrows = 1\<rparr>"

definition one_score_df :: dataframe where
  "one_score_df = \<lparr>columns = [(''C1SCORE'', [Num 24])], nrows = 1\<rparr>"

text \<open>A table of two columns and no records.\<close>

definition empty_df :: dataframe where
  "empty_df = \<lparr>columns = [(''C1SCORE'', []), (''C1MOCA'', [])], nrows = 0\<rparr>"

text \<open>A table with an integer column and a float column.\<close>

definition scores_df :: dataframe where
  "scores_df =
     \<lparr>columns =
        [(''C1SCORE'', [IntV 24, IntV (-4), IntV 30]),
         (''C1MMSE'', [Num (55 / 2), NA, NA]),
         (''C1MOCA'', [IntV (-4), IntV (-4), IntV 21])],
      nrows = 3\<rparr>"

text \<open>A table with an integer that \<open>float64\<close> does not hold, beside a float column.\<close>

definition large_df :: dataframe where
  "large_df =
     \<lparr>columns = [(''A'', [IntV 9007199254740993]), (''B'', [NA])], nrows = 1\<rparr>"

text \<open>A tagged table of 20 records: one score column with 11 valid values.\<close>

definition ratio_df :: dataframe where
  "ratio_df =
     \<lparr>columns =
        [(''C1SCORE'', replicate 11 (IntV 24) @ replicate 9 (IntV (-4))),
         (''has_MMSE'', replicate 11 (Flag True) @ replicate 9 (Flag False)),
         (''has_MOCA'', replicate 20 (Flag False))],
      nrows = 20\<rparr>"

text \<open>
  A tagged table of one record and 18 data columns, valid in every second column; and a
  summary of it with the nine columns of count 1 first, then the nine of count 0.
\<close>

definition tie_df :: dataframe where
  "tie_df =
     \<lparr>columns =
        [(''V01'', [IntV (-4)]), (''V02'', [IntV 1]), (''V03'', [IntV (-4)]), (''V04'', [IntV 1]),
         (''V05'', [IntV (-4)]), (''V06'', [IntV 1]), (''V07'', [IntV (-4)]), (''V08'', [IntV 1]),
         (''V09'', [IntV (-4)]), (''V10'', [IntV 1]), (''V11'', [IntV (-4)]), (''V12'', [IntV 1]),
         (''V13'', [IntV (-4)]), (''V14'', [IntV 1]), (''V15'', [IntV (-4)]), (''V16'', [IntV 1]),
         (''V17'', [IntV (-4)]), (''V18'', [IntV 1]),
         (''has_MMSE'', [Flag True]), (''has_MOCA'', [Flag False])],
      nrows = 1\<rparr>"

definition tie_summary :: "summary_row list" where
  "tie_summary =
     map (\<lambda>c. \<lparr>Column = c, Valid_Data_Count = 1, Percentage = 100\<rparr>)
       [''V10'', ''V08'', ''V16'', ''V14'', ''V12'', ''V02'', ''V18'', ''V06'', ''V04''] @
     map (\<lambda>c. \<lparr>Column = c, Valid_Data_Count = 0, Percentage = 0\<rparr>)
       [''V07'', ''V09'', ''V11'', ''V05'', ''V13'', ''V15'', ''V03'', ''V17'', ''V01'']"

section \<open>Properties of the Catalog Builder\<close>

subsection \<open>De-duplication\<close>

lemma drop_seen_unseen: "e \<in> set (drop_seen seen es) \<Longrightarrow> variable_name e \<notin> set seen"
proof (induction es arbitrary: seen)
  case Nil
  then show ?case by simp
next
  case (Cons a es)
  show ?case
  proof (cases "variable_name a \<in> set seen")
    case True
    with Cons show ?thesis by simp
  next
    case False
    with Cons.prems have "e = a \<or> e \<in> set (drop_seen (variable_name a # seen) es)" by simp
    then show ?thesis
    proof
      assume "e = a" with False show ?thesis by simp
    next
      assume "e \<in> set (drop_seen (variable_name a # seen) es)"
      from Cons.IH [OF this] show ?thesis by simp
    qed
  qed
qed

lemma drop_seen_distinct: "distinct (map variable_name (drop_seen seen es))"
  by (induction es arbitrary: seen) (auto dest: drop_seen_unseen)

lemma drop_seen_subseq: "subseq (drop_seen seen es) es"
  by (induction es arbitrary: seen) auto

lemma drop_seen_subset: "set (drop_seen seen es) \<subseteq> set es"
  by (induction es arbitrary: seen) auto

lemma drop_seen_find:
  "find (\<lambda>c. variable_name c = v) (drop_seen seen es) =
     (if v \<in> set seen then None else find (\<lambda>c. variable_name c = v) es)"
  by (induction es arbitrary: seen) (auto simp: find_None_iff dest: drop_seen_unseen)

lemma drop_seen_nth:
  "drop_seen seen es =
     map (nth es)
       (filter (\<lambda>i. variable_name (es ! i) \<notin> set seen \<and>
                     (\<forall>j<i. variable_name (es ! j) \<noteq> variable_name (es ! i)))
          [0..<length es])"
proof (induction es arbitrary: seen)
  case Nil
  then show ?case by simp
next
  case (Cons e es)
  define P where "P = (\<lambda>seen i. variable_name (es ! i) \<notin> set seen \<and>
                     (\<forall>j<i. variable_name (es ! j) \<noteq> variable_name (es ! i)))"
  define Q where "Q = (\<lambda>i. variable_name ((e # es) ! i) \<notin> set seen \<and>
                     (\<forall>j<i. variable_name ((e # es) ! j) \<noteq> variable_name ((e # es) ! i)))"
  have IH: "drop_seen seen' es = map (nth es) (filter (P seen') [0..<length es])" for seen'
    unfolding P_def by (rule Cons.IH)
  have upt: "[0..<length (e # es)] = 0 # map Suc [0..<length es]"
    by (simp add: upt_conv_Cons map_Suc_upt del: upt_Suc)
  have zero: "Q 0 \<longleftrightarrow> variable_name e \<notin> set seen"
    by (simp add: Q_def)
  have suc: "Q (Suc i) \<longleftrightarrow>
               variable_name (es ! i) \<notin> set seen \<and> variable_name e \<noteq> variable_name (es ! i) \<and>
               (\<forall>j<i. variable_name (es ! j) \<noteq> variable_name (es ! i))" for i
    by (simp add: Q_def All_less_Suc2)
  have tail: "map (nth (e # es)) (filter Q (map Suc [0..<length es])) =
              map (nth es) (filter (\<lambda>i. Q (Suc i)) [0..<length es])"
    by (simp add: filter_map comp_def)
  have goal: "map (nth (e # es)) (filter Q [0..<length (e # es)]) =
              (if Q 0 then [e] else []) @ map (nth es) (filter (\<lambda>i. Q (Suc i)) [0..<length es])"
    unfolding upt using tail by simp
  have "drop_seen seen (e # es) = map (nth (e # es)) (filter Q [0..<length (e # es)])"
  proof (cases "variable_name e \<in> set seen")
    case True
    then have "filter (\<lambda>i. Q (Suc i)) [0..<length es] = filter (P seen) [0..<length es]"
      by (intro filter_cong refl) (auto simp: suc P_def)
    with True IH [of seen] zero show ?thesis
      unfolding goal by simp
  next
    case False
    have "filter (\<lambda>i. Q (Suc i)) [0..<length es] =
          filter (P (variable_name e # seen)) [0..<length es]"
      by (intro filter_cong refl) (auto simp: suc P_def)
    with False IH [of "variable_name e # seen"] zero show ?thesis
      unfolding goal by simp
  qed
  then show ?case unfolding Q_def .
qed

lemma drop_duplicates_first_occurrences:
  "drop_duplicates records =
     map (nth records)
       (filter (\<lambda>i. \<forall>j<i. variable_name (records ! j) \<noteq> variable_name (records ! i))
          [0..<length records])"
  by (simp add: drop_duplicates_def drop_seen_nth)

subsection \<open>Rows and records\<close>

lemma yields_row_iff: "yields_row r \<longleftrightarrow> \<not> spec_excluded r"
  by (auto simp: yields_row_def spec_excluded_def is_header_row_def has_variable_name_def strip_def
           split: option.splits)

lemma record_of_row_ok: "yields_row r \<Longrightarrow> \<exists>new. record_of_row ff i r = Inr new"
  by (cases r rule: form_field_of.cases)
     (auto simp: yields_row_def record_of_row_def Let_def split: if_splits)

lemma collect_records_ok:
  "list_all yields_row rows \<Longrightarrow> \<exists>records. collect_records ff (enumerate_from start rows) = Inr records"
proof (induction rows arbitrary: start)
  case Nil
  then show ?case by simp
next
  case (Cons r rows)
  from Cons.prems obtain new where "record_of_row ff start r = Inr new"
    using record_of_row_ok [of r ff start] by auto
  moreover from Cons obtain records where
    "collect_records ff (enumerate_from (start + 1) rows) = Inr records" by fastforce
  ultimately show ?case by simp
qed

lemma collect_records_origin:
  "collect_records ff irs = Inr records \<Longrightarrow> e \<in> set records \<Longrightarrow>
     \<exists>(i, r) \<in> set irs. record_of_row ff i r = Inr (Some e)"
proof (induction irs arbitrary: records)
  case Nil
  then show ?case by simp
next
  case (Cons ir irs)
  obtain i r where ir: "ir = (i, r)" by (cases ir)
  from Cons.prems(1) ir obtain new rest where
    new: "record_of_row ff i r = Inr new" and
    rest: "collect_records ff irs = Inr rest" and
    records: "records = (case new of None \<Rightarrow> [] | Some e \<Rightarrow> [e]) @ rest"
    by (auto split: sum.splits)
  from Cons.prems(2) records have "new = Some e \<or> e \<in> set rest"
    by (auto split: option.splits)
  then show ?case
  proof
    assume "new = Some e"
    with new ir show ?thesis by auto
  next
    assume "e \<in> set rest"
    from Cons.IH [OF rest this] ir show ?thesis by auto
  qed
qed

lemma set_enumerate_from: "(i, r) \<in> set (enumerate_from start rows) \<Longrightarrow> r \<in> set rows"
  by (induction rows arbitrary: start) auto

lemma iter_variable_rows_filter:
  "iter_variable_rows (map (filter (\<lambda>r. \<not> spec_excluded r)) pages) = iter_variable_rows pages"
proof -
  have "yields_row = (\<lambda>r. \<not> spec_excluded r)"
    by (rule ext) (rule yields_row_iff)
  then have "filter yields_row (filter (\<lambda>r. \<not> spec_excluded r) p) = filter yields_row p" for p
    by simp
  then show ?thesis
    by (simp add: iter_variable_rows_def comp_def)
qed

lemma set_iter_variable_rows:
  "set (iter_variable_rows pages) = {r \<in> set (concat pages). yields_row r}"
  by (auto simp: iter_variable_rows_def)

lemma iter_variable_rows_yield: "list_all yields_row (iter_variable_rows pages)"
  by (simp add: iter_variable_rows_def list_all_iff)

lemma build_variable_catalog_unfold:
  assumes "extract_pdf_tables plumber pdf_path [start..end] = Inr all_pages_rows"
  shows "build_variable_catalog plumber pdf_path (start, end) forms_filter =
           catalog_of_rows start forms_filter all_pages_rows"
  using assms by (simp add: build_variable_catalog_def)

lemma sample_extract: "extract_pdf_tables sample_plumber ''uds.pdf'' [0..1] = Inr sample_pages"
  by code_simp

subsection \<open>Source page\<close>

text \<open>
  Claim C2 (every entry's \<open>source_page\<close> is the absolute index of the page its row was
  extracted from) fails on the code: the counter of \<open>enumerate\<close> runs over the yielded
  rows, not over the pages. Page range (0, 0) of a document whose single page holds two
  qualifying rows: both rows are extracted from page 0, and the second entry gets
  \<open>source_page = 1\<close>.
\<close>

theorem source_page_counts_rows:
  "extract_pdf_tables (Some (\<lambda>pdf_path. Some two_rows_doc)) ''uds.pdf'' [0..0] =
     Inr [[[Some ''C1'', Some '''', Some ''C1SCORE'', Some ''MMSE Total Score''],
           [Some ''C1'', Some '''', Some ''C1MMSE'', Some ''MMSE Orientation'']]] \<and>
   build_variable_catalog (Some (\<lambda>pdf_path. Some two_rows_doc)) ''uds.pdf'' (0, 0) [''C1'', ''C2''] =
     Inr [\<lparr>form_field = ''C1'', variable_name = ''C1SCORE'', label = ''MMSE Total Score'',
            source_page = 0\<rparr>,
          \<lparr>form_field = ''C1'', variable_name = ''C1MMSE'', label = ''MMSE Orientation'',
            source_page = 1\<rparr>]"
  by code_simp

subsection \<open>Excluded rows\<close>

text \<open>
  Claim C7: once the pages are extracted, no row that the specification excludes (fewer
  than 3 cells, a "variable name" header in cell 2, or an empty cell 2 after trimming) is
  yielded by \<open>_iter_variable_rows\<close>; the catalog is the one built from the pages with
  those rows removed; and every catalog entry is the record of a row that is not
  excluded.
\<close>

theorem excluded_rows_contribute_nothing:
  assumes "extract_pdf_tables plumber pdf_path [start..end] = Inr all_pages_rows"
  shows "(\<forall>r. spec_excluded r \<longrightarrow> r \<notin> set (iter_variable_rows all_pages_rows)) \<and>
         build_variable_catalog plumber pdf_path (start, end) forms_filter =
           catalog_of_rows start forms_filter
             (map (filter (\<lambda>r. \<not> spec_excluded r)) all_pages_rows) \<and>
         (\<forall>catalog e.
            build_variable_catalog plumber pdf_path (start, end) forms_filter = Inr catalog \<longrightarrow>
            e \<in> set catalog \<longrightarrow>
            (\<exists>r \<in> set (concat all_pages_rows).
               \<not> spec_excluded r \<and> (\<exists>i. record_of_row forms_filter i r = Inr (Some e))))"
proof (intro conjI allI impI)
  fix r assume "spec_excluded r"
  then show "r \<notin> set (iter_variable_rows all_pages_rows)"
    by (simp add: set_iter_variable_rows yields_row_iff)
next
  show "build_variable_catalog plumber pdf_path (start, end) forms_filter =
          catalog_of_rows start forms_filter (map (filter (\<lambda>r. \<not> spec_excluded r)) all_pages_rows)"
    by (simp add: build_variable_catalog_unfold [OF assms] catalog_of_rows_def
                  iter_variable_rows_filter)
next
  fix catalog e
  assume built: "build_variable_catalog plumber pdf_path (start, end) forms_filter = Inr catalog"
     and e: "e \<in> set catalog"
  from built obtain records where
    records: "collect_records forms_filter
                (enumerate_from start (iter_variable_rows all_pages_rows)) = Inr records"
    and catalog: "catalog = drop_duplicates records"
    by (auto simp: build_variable_catalog_unfold [OF assms] catalog_of_rows_def split: sum.splits)
  from e catalog have "e \<in> set records"
    using drop_seen_subset [of "[]" records] by (auto simp: drop_duplicates_def)
  from collect_records_origin [OF records this] obtain i r where
    ir: "(i, r) \<in> set (enumerate_from start (iter_variable_rows all_pages_rows))"
    and rec: "record_of_row forms_filter i r = Inr (Some e)"
    by auto
  from ir have "r \<in> set (iter_variable_rows all_pages_rows)"
    by (rule set_enumerate_from)
  then have "r \<in> set (concat all_pages_rows)" and "\<not> spec_excluded r"
    by (simp_all add: set_iter_variable_rows yields_row_iff)
  with rec show "\<exists>r \<in> set (concat all_pages_rows).
                   \<not> spec_excluded r \<and> (\<exists>i. record_of_row forms_filter i r = Inr (Some e))"
    by blast
qed

theorem excluded_rows_contribute_nothing_witness:
  "extract_pdf_tables sample_plumber ''uds.pdf'' [0..1] = Inr sample_pages \<and>
   spec_excluded [Some ''C1''] \<and>
   spec_excluded [Some ''Form'', Some '''', Some '' Variable Name '', Some ''Label''] \<and>
   spec_excluded [Some ''C1'', None, Some ''  '', Some ''blank''] \<and>
   [Some ''C1''] \<notin> set (iter_variable_rows sample_pages) \<and>
   [Some ''Form'', Some '''', Some '' Variable Name '', Some ''Label'']
      \<notin> set (iter_variable_rows sample_pages) \<and>
   [Some ''C1'', None, Some ''  '', Some ''blank''] \<notin> set (iter_variable_rows sample_pages) \<and>
   build_variable_catalog sample_plumber ''uds.pdf'' (0, 1) [''C1'', ''C2''] =
     catalog_of_rows 0 [''C1'', ''C2''] (map (filter (\<lambda>r. \<not> spec_excluded r)) sample_pages)"
proof -
  have ex1: "spec_excluded [Some ''C1'']"
    and ex2: "spec_excluded [Some ''Form'', Some '''', Some '' Variable Name '', Some ''Label'']"
    and ex3: "spec_excluded [Some ''C1'', None, Some ''  '', Some ''blank'']"
    by code_simp+
  from excluded_rows_contribute_nothing [OF sample_extract, of "[''C1'', ''C2'']"]
       ex1 ex2 ex3 sample_extract
  show ?thesis by blast
qed

subsection \<open>Unique variable names\<close>

text \<open>
  Claim C8: a catalog returned by \<open>build_variable_catalog\<close> holds no two entries with
  the same \<open>variable_name\<close>.
\<close>

theorem catalog_names_unique:
  assumes "build_variable_catalog plumber pdf_path page_range forms_filter = Inr catalog"
  shows "distinct (map variable_name catalog)"
proof -
  from assms obtain records where "catalog = drop_duplicates records"
    by (auto simp: build_variable_catalog_def catalog_of_rows_def split: prod.splits sum.splits)
  then show ?thesis
    by (simp add: drop_duplicates_def drop_seen_distinct)
qed

theorem catalog_names_unique_witness:
  "build_variable_catalog sample_plumber ''uds.pdf'' (0, 1) [''C1'', ''C2''] =
     Inr [\<lparr>form_field = ''C1'', variable_name = ''MMSE'', label = ''total'', source_page = 0\<rparr>,
          \<lparr>form_field = ''C2'', variable_name = ''MOCA'', label = '''', source_page = 2\<rparr>] \<and>
   distinct (map variable_name
     [\<lparr>form_field = ''C1'', variable_name = ''MMSE'', label = ''total'', source_page = 0\<rparr>,
      \<lparr>form_field = ''C2'', variable_name = ''MOCA'', label = '''', source_page = 2\<rparr>])"
proof -
  have built: "build_variable_catalog sample_plumber ''uds.pdf'' (0, 1) [''C1'', ''C2''] =
     Inr [\<lparr>form_field = ''C1'', variable_name = ''MMSE'', label = ''total'', source_page = 0\<rparr>,
          \<lparr>form_field = ''C2'', variable_name = ''MOCA'', label = '''', source_page = 2\<rparr>]"
    by code_simp
  from built catalog_names_unique [OF built] show ?thesis by (rule conjI)
qed

subsection \<open>First occurrence wins\<close>

text \<open>
  Claim C10: once the pages are extracted, the records of the qualifying rows are
  collected in page-then-row order and the catalog is returned; the catalog holds
  exactly the records that no earlier record shares its variable name with, in their
  order: every later occurrence of a name is dropped, the names of the catalog are
  distinct, the catalog is a subsequence of the records, and for every variable name the
  entry the catalog holds is the first record with that name.
\<close>

theorem first_seen_wins:
  assumes "extract_pdf_tables plumber pdf_path [start..end] = Inr all_pages_rows"
  shows "\<exists>records catalog.
           collect_records forms_filter
             (enumerate_from start (iter_variable_rows all_pages_rows)) = Inr records \<and>
           build_variable_catalog plumber pdf_path (start, end) forms_filter = Inr catalog \<and>
           catalog =
             map (nth records)
               (filter (\<lambda>i. \<forall>j<i. variable_name (records ! j) \<noteq> variable_name (records ! i))
                  [0..<length records]) \<and>
           subseq catalog records \<and>
           distinct (map variable_name catalog) \<and>
           (\<forall>v. find (\<lambda>c. variable_name c = v) catalog =
                find (\<lambda>c. variable_name c = v) records)"
proof -
  from collect_records_ok [OF iter_variable_rows_yield] obtain records where
    records: "collect_records forms_filter
                (enumerate_from start (iter_variable_rows all_pages_rows)) = Inr records"
    by blast
  then have "build_variable_catalog plumber pdf_path (start, end) forms_filter =
               Inr (drop_duplicates records)"
    by (simp add: build_variable_catalog_unfold [OF assms] catalog_of_rows_def)
  moreover note drop_duplicates_first_occurrences [of records]
  moreover have "subseq (drop_duplicates records) records"
    by (simp add: drop_duplicates_def drop_seen_subseq)
  moreover have "distinct (map variable_name (drop_duplicates records))"
    by (simp add: drop_duplicates_def drop_seen_distinct)
  moreover have "find (\<lambda>c. variable_name c = v) (drop_duplicates records) =
                 find (\<lambda>c. variable_name c = v) records" for v
    by (simp add: drop_duplicates_def drop_seen_find)
  ultimately show ?thesis using records by blast
qed

theorem first_seen_wins_witness:
  "extract_pdf_tables sample_plumber ''uds.pdf'' [0..1] = Inr sample_pages \<and>
   collect_records [''C1'', ''C2''] (enumerate_from 0 (iter_variable_rows sample_pages)) =
     Inr [\<lparr>form_field = ''C1'', variable_name = ''MMSE'', label = ''total'', source_page = 0\<rparr>,
          \<lparr>form_field = ''form C2'', variable_name = ''MMSE'', label = ''again'',
            source_page = 1\<rparr>,
          \<lparr>form_field = ''C2'', variable_name = ''MOCA'', label = [], source_page = 2\<rparr>] \<and>
   build_variable_catalog sample_plumber ''uds.pdf'' (0, 1) [''C1'', ''C2''] =
     Inr [\<lparr>form_field = ''C1'', variable_name = ''MMSE'', label = ''total'', source_page = 0\<rparr>,
          \<lparr>form_field = ''C2'', variable_name = ''MOCA'', label = [], source_page = 2\<rparr>] \<and>
   (\<exists>records catalog.
      collect_records [''C1'', ''C2'']
        (enumerate_from 0 (iter_variable_rows sample_pages)) = Inr records \<and>
      build_variable_catalog sample_plumber ''uds.pdf'' (0, 1) [''C1'', ''C2''] = Inr catalog \<and>
      catalog =
        map (nth records)
          (filter (\<lambda>i. \<forall>j<i. variable_name (records ! j) \<noteq> variable_name (records ! i))
             [0..<length records]) \<and>
      subseq catalog records \<and>
      distinct (map variable_name catalog) \<and>
      (\<forall>v. find (\<lambda>c. variable_name c = v) catalog =
           find (\<lambda>c. variable_name c = v) records))"
proof -
  have r: "collect_records [''C1'', ''C2''] (enumerate_from 0 (iter_variable_rows sample_pages)) =
     Inr [\<lparr>form_field = ''C1'', variable_name = ''MMSE'', label = ''total'', source_page = 0\<rparr>,
          \<lparr>form_field = ''form C2'', variable_name = ''MMSE'', label = ''again'',
            source_page = 1\<rparr>,
          \<lparr>form_field = ''C2'', variable_name = ''MOCA'', label = [], source_page = 2\<rparr>]"
    by code_simp
  have b: "build_variable_catalog sample_plumber ''uds.pdf'' (0, 1) [''C1'', ''C2''] =
     Inr [\<lparr>form_field = ''C1'', variable_name = ''MMSE'', label = ''total'', source_page = 0\<rparr>,
          \<lparr>form_field = ''C2'', variable_name = ''MOCA'', label = [], source_page = 2\<rparr>]"
    by code_simp
  from sample_extract r b first_seen_wins [OF sample_extract, of "[''C1'', ''C2'']"]
  show ?thesis by (intro conjI)
qed

section \<open>Properties of the floating-point operations\<close>

lemma bitlen_powi_bounds:
  assumes "0 < (a::int)"
  shows "(2::rat) powi (bitlen a - 1) \<le> of_int a" and "of_int a < (2::rat) powi bitlen a"
proof -
  from assms have b: "1 \<le> bitlen a"
    using bitlen_eq_zero_iff [of a] bitlen_nonneg [of a] by linarith
  from bitlen_bounds [OF assms] have lo: "2 ^ nat (bitlen a - 1) \<le> a" and hi: "a < 2 ^ nat (bitlen a)"
    by simp_all
  from lo have "(of_int (2 ^ nat (bitlen a - 1)) :: rat) \<le> of_int a"
    by (simp only: of_int_le_iff)
  with b show "(2::rat) powi (bitlen a - 1) \<le> of_int a"
    by (simp add: power_int_nonneg_exp)
  from hi have "(of_int a :: rat) < of_int (2 ^ nat (bitlen a))"
    by (simp only: of_int_less_iff)
  with b show "of_int a < (2::rat) powi bitlen a"
    by (simp add: power_int_nonneg_exp)
qed

lemma ilog2_bounds:
  assumes "0 < q"
  shows "2 powi (ilog2 q) \<le> q" and "q < 2 powi (ilog2 q + 1)"
proof -
  obtain a b where ab: "quotient_of q = (a, b)" by (cases "quotient_of q")
  then have b: "0 < b" by (rule quotient_of_denom_pos)
  from ab have q: "q = of_int a / of_int b"
    by (rule quotient_of_div)
  with assms b have a: "0 < a"
    by (simp add: zero_less_divide_iff)
  let ?d = "bitlen a - bitlen b"
  note bitlen_powi_bounds [OF a] bitlen_powi_bounds [OF b]
  have lo: "(2::rat) powi (?d - 1) \<le> q"
  proof -
    have "(2::rat) powi (?d - 1) * of_int b \<le> 2 powi (?d - 1) * 2 powi bitlen b"
      using bitlen_powi_bounds(2) [OF b] by (intro mult_left_mono) simp_all
    also have "\<dots> = 2 powi (bitlen a - 1)"
      by (simp add: power_int_add [symmetric])
    also have "\<dots> \<le> of_int a" by (rule bitlen_powi_bounds(1) [OF a])
    finally show ?thesis using b by (simp add: q pos_le_divide_eq)
  qed
  have hi: "q < (2::rat) powi (?d + 1)"
  proof -
    have "of_int a < (2::rat) powi bitlen a" by (rule bitlen_powi_bounds(2) [OF a])
    also have "\<dots> = 2 powi (?d + 1) * 2 powi (bitlen b - 1)"
      by (simp add: power_int_add [symmetric])
    also have "\<dots> \<le> 2 powi (?d + 1) * of_int b"
      using bitlen_powi_bounds(1) [OF b] by (intro mult_left_mono) simp_all
    finally show ?thesis using b by (simp add: q pos_divide_less_eq)
  qed
  have il: "ilog2 q = (if 2 powi ?d \<le> q then ?d else ?d - 1)"
    by (simp add: ilog2_def ab Let_def)
  show "2 powi (ilog2 q) \<le> q"
    using lo by (simp add: il)
  show "q < 2 powi (ilog2 q + 1)"
    using hi by (auto simp: il not_le)
qed

lemma round_half_even_error: "\<bar>of_int (round_half_even q) - q\<bar> \<le> 1 / 2"
proof -
  have "of_int \<lfloor>q\<rfloor> \<le> q" "q < of_int \<lfloor>q\<rfloor> + 1"
    by linarith+
  then show ?thesis
    by (auto simp: round_half_even_def Let_def abs_le_iff)
qed

lemma binary64_error:
  assumes "0 < q"
  shows "\<bar>binary64 q - q\<bar> \<le> q / 2 ^ 53"
proof -
  let ?e = "ilog2 q - 52"
  let ?s = "(2::rat) powi ?e"
  have s: "0 < ?s" by simp
  from assms have b: "binary64 q = of_int (round_half_even (q / ?s)) * ?s"
    by (simp add: binary64_def Let_def)
  have "\<bar>binary64 q - q\<bar> = \<bar>of_int (round_half_even (q / ?s)) - q / ?s\<bar> * ?s"
  proof -
    have "binary64 q - q = (of_int (round_half_even (q / ?s)) - q / ?s) * ?s"
      using s by (simp add: b left_diff_distrib)
    then show ?thesis
      using s by (simp add: abs_mult)
  qed
  also have "\<dots> \<le> 1 / 2 * ?s"
    using round_half_even_error [of "q / ?s"] s by (intro mult_right_mono) simp_all
  also have "\<dots> \<le> q / 2 ^ 53"
  proof -
    have "?s * 2 ^ 52 = 2 powi (ilog2 q)"
      by (simp add: power_int_diff)
    also have "\<dots> \<le> q" by (rule ilog2_bounds(1) [OF assms])
    finally show ?thesis by simp
  qed
  finally show ?thesis .
qed

lemma round_half_even_of_int: "round_half_even (of_int m) = m"
  by (simp add: round_half_even_def)

lemma ilog2_less:
  assumes "0 < q" and "q < 2 powi k"
  shows "ilog2 q < k"
proof (rule ccontr)
  assume "\<not> ilog2 q < k"
  then have "(2::rat) powi k \<le> 2 powi (ilog2 q)"
    by (intro power_int_increasing) simp_all
  also have "\<dots> \<le> q" by (rule ilog2_bounds(1) [OF assms(1)])
  finally show False using assms(2) by simp
qed

lemma float64_exact_small_int:
  assumes "\<bar>i\<bar> \<le> 2 ^ 53"
  shows "float64_exact (of_int i)"
proof (cases "i = 0")
  case True
  then show ?thesis by (simp add: float64_exact_def binary64_def)
next
  case False
  let ?q = "of_int i :: rat"
  have pos: "0 < \<bar>?q\<bar>" using False by simp
  have "\<bar>?q\<bar> = of_int \<bar>i\<bar>" by simp
  also have "\<dots> \<le> of_int (2 ^ 53)" using assms by (simp only: of_int_le_iff)
  also have "\<dots> < (2::rat) powi 54" by simp
  finally have "ilog2 \<bar>?q\<bar> < 54" using pos by (intro ilog2_less)
  then have e: "ilog2 \<bar>?q\<bar> - 52 \<le> 1" by simp
  let ?e = "ilog2 \<bar>?q\<bar> - 52"
  show ?thesis
  proof (cases "?e \<le> 0")
    case True
    define k where "k = nat (- ?e)"
    have pk: "(2::rat) powi ?e = 1 / 2 ^ k"
      using True by (simp add: k_def power_int_def field_simps)
    have "?q / 2 powi ?e = of_int (i * 2 ^ k)"
      by (simp add: pk)
    then have "round_half_even (?q / 2 powi ?e) = i * 2 ^ k"
      by (simp only: round_half_even_of_int)
    then show ?thesis
      using False by (simp add: float64_exact_def binary64_def Let_def pk)
  next
    case False
    with e have e1: "?e = 1" by simp
    then have "(2::rat) powi 53 \<le> \<bar>?q\<bar>"
      using ilog2_bounds(1) [OF pos] by simp
    then have "(of_int (2 ^ 53) :: rat) \<le> of_int \<bar>i\<bar>" by simp
    then have "2 ^ 53 \<le> \<bar>i\<bar>" by (simp only: of_int_le_iff)
    with assms have "\<bar>i\<bar> = 2 ^ 53" by simp
    then have "i = 2 ^ 53 \<or> i = - (2 ^ 53)" by (auto simp: abs_if split: if_splits)
    then show ?thesis
      by (auto simp: float64_exact_def) code_simp+
  qed
qed

lemma binary64_zero: "binary64 0 = 0"
  by (simp add: binary64_def)

lemma percentage_zero_rows: "percentage c 0 = Inr 0"
  by (simp add: percentage_def)

lemma percentage_value:
  "n \<noteq> 0 \<Longrightarrow> percentage c n = Inr (binary64 (binary64 (of_int c / of_nat n) * 100))"
  by (simp add: percentage_def truediv_def)

lemma percentage_error:
  assumes "0 \<le> c" and "percentage c n = Inr p"
  shows "\<bar>p - 100 * of_int c / of_nat n\<bar> \<le> (100 * of_int c / of_nat n) / 2 ^ 51"
proof (cases "n = 0 \<or> c = 0")
  case True
  with assms show ?thesis
    by (auto simp: percentage_def truediv_def binary64_zero split: if_splits)
next
  case False
  then have n: "0 < n" and c: "0 < c" using assms(1) by auto
  let ?x = "of_int c / of_nat n :: rat"
  let ?u = "1 / 2 ^ 53 :: rat"
  have x: "0 < ?x" using n c by simp
  let ?q = "binary64 ?x"
  from binary64_error [OF x] have q: "\<bar>?q - ?x\<bar> \<le> ?x * ?u" by simp
  have "?x * ?u \<le> ?x / 2" using x by simp
  with q have qpos: "0 < ?q" and qle: "?q \<le> 2 * ?x" using x by (auto simp: abs_le_iff)
  from n assms(2) have p: "p = binary64 (?q * 100)"
    by (simp add: percentage_value)
  from qpos have "0 < ?q * 100" by simp
  from binary64_error [OF this] have "\<bar>p - ?q * 100\<bar> \<le> ?q * 100 * ?u"
    by (simp add: p)
  also have "\<dots> \<le> 2 * ?x * 100 * ?u"
    using qle by (intro mult_right_mono) simp_all
  finally have e1: "\<bar>p - ?q * 100\<bar> \<le> 200 * ?x * ?u" by simp
  from q have e2: "\<bar>?q * 100 - 100 * ?x\<bar> \<le> 100 * ?x * ?u"
    by (simp add: abs_le_iff)
  have "\<bar>p - 100 * ?x\<bar> \<le> \<bar>p - ?q * 100\<bar> + \<bar>?q * 100 - 100 * ?x\<bar>"
    by simp
  also have "\<dots> \<le> 300 * ?x * ?u" using e1 e2 by simp
  also have "\<dots> \<le> (100 * ?x) / 2 ^ 51" using x by simp
  finally show ?thesis by simp
qed

lemma percentage_full: "n \<noteq> 0 \<Longrightarrow> percentage (int n) n = Inr 100"
proof -
  assume "n \<noteq> 0"
  moreover have "binary64 1 = 1" "binary64 100 = 100" by code_simp+
  ultimately show ?thesis by (simp add: percentage_value)
qed

section \<open>Properties of the table operations\<close>

subsection \<open>Selection, validity, rows\<close>

lemma set_take_labels:
  "set (take_labels labels cols) = {col \<in> set cols. fst col \<in> set labels}"
  by (auto simp: take_labels_def)

lemma is_valid_iff: "is_valid s v \<longleftrightarrow> v \<noteq> NA \<and> \<not> eq_sentinel s v"
  by (cases v) (auto simp: is_valid_def notna_def)

lemma length_apply_rows: "length (apply_rows f df) = nrows df"
  by (simp add: apply_rows_def)

lemma nth_apply_rows: "i < nrows df \<Longrightarrow> apply_rows f df ! i = f (row_values (columns df) i)"
  by (simp add: apply_rows_def)

lemma list_ex_row_values:
  "list_ex P (row_values cols i) \<longleftrightarrow> (\<exists>col \<in> set cols. P (snd col ! i))"
  by (auto simp: row_values_def list_ex_iff)

lemma set_data_cols:
  "set (take_labels (filter (\<lambda>c. c \<notin> set exclude) (column_names df)) (columns df)) =
     {col \<in> set (columns df). fst col \<notin> set exclude}"
  by (auto simp: set_take_labels column_names_def)

subsection \<open>Empty-Row Detector\<close>

text \<open>
  Claim C6: the mask of \<open>compute_empty_rows_mask\<close> has one flag per record, and the
  flag of record \<open>i\<close> is true iff every column that is not excluded holds, at \<open>i\<close>, a
  value that is absent or equals the missing sentinel; so a record with a valid value in
  a column that is not excluded is flagged false.
\<close>

theorem empty_rows_mask:
  assumes "wf_df df"
  shows "length (compute_empty_rows_mask df exclude missing_sentinel) = nrows df \<and>
         (\<forall>i < nrows df.
            compute_empty_rows_mask df exclude missing_sentinel ! i \<longleftrightarrow>
              (\<forall>col \<in> set (columns df).
                 fst col \<notin> set exclude \<longrightarrow>
                 snd col ! i = NA \<or> eq_sentinel missing_sentinel (snd col ! i)))"
proof (intro conjI allI impI)
  show "length (compute_empty_rows_mask df exclude missing_sentinel) = nrows df"
    by (simp add: compute_empty_rows_mask_def Let_def length_apply_rows)
next
  fix i assume i: "i < nrows df"
  then have "compute_empty_rows_mask df exclude missing_sentinel ! i \<longleftrightarrow>
               \<not> (\<exists>col \<in> {col \<in> set (columns df). fst col \<notin> set exclude}.
                     is_valid missing_sentinel (snd col ! i))"
    by (simp add: compute_empty_rows_mask_def row_empty_def Let_def nth_apply_rows
                  list_ex_row_values set_data_cols)
  also have "\<dots> \<longleftrightarrow> (\<forall>col \<in> set (columns df).
                 fst col \<notin> set exclude \<longrightarrow>
                 snd col ! i = NA \<or> eq_sentinel missing_sentinel (snd col ! i))"
    unfolding is_valid_iff by blast
  finally show "compute_empty_rows_mask df exclude missing_sentinel ! i \<longleftrightarrow>
              (\<forall>col \<in> set (columns df).
                 fst col \<notin> set exclude \<longrightarrow>
                 snd col ! i = NA \<or> eq_sentinel missing_sentinel (snd col ! i))" .
qed

lemma wf_sample_df: "wf_df sample_df"
  by code_simp

theorem empty_rows_mask_witness:
  "wf_df sample_df \<and>
   compute_empty_rows_mask sample_df [''has_MMSE'', ''has_MOCA''] (-4) = [False, True, False] \<and>
   length (compute_empty_rows_mask sample_df [''has_MMSE'', ''has_MOCA''] (-4)) = nrows sample_df \<and>
   (compute_empty_rows_mask sample_df [''has_MMSE'', ''has_MOCA''] (-4) ! 1 \<longleftrightarrow>
      (\<forall>col \<in> set (columns sample_df).
         fst col \<notin> set [''has_MMSE'', ''has_MOCA''] \<longrightarrow>
         snd col ! 1 = NA \<or> eq_sentinel (-4) (snd col ! 1)))"
proof -
  have mask: "compute_empty_rows_mask sample_df [''has_MMSE'', ''has_MOCA''] (-4) = [False, True, False]"
    by code_simp
  have "1 < nrows sample_df"
    by (simp add: sample_df_def)
  with wf_sample_df mask empty_rows_mask [OF wf_sample_df, of "[''has_MMSE'', ''has_MOCA'']" "-4"]
  show ?thesis by blast
qed

subsection \<open>Column Aligner\<close>

lemma filter_label_unique:
  "distinct (map fst cols) \<Longrightarrow> l \<in> set (map fst cols) \<Longrightarrow>
     map fst (filter (\<lambda>col. fst col = l) cols) = [l]"
proof (induction cols)
  case Nil
  then show ?case by simp
next
  case (Cons c cols)
  show ?case
  proof (cases "fst c = l")
    case True
    with Cons.prems have "l \<notin> fst ` set cols" by auto
    then have "filter (\<lambda>col. fst col = l) cols = []"
      by (auto simp: filter_empty_conv)
    with True show ?thesis by simp
  next
    case False
    with Cons show ?thesis by auto
  qed
qed

lemma names_take_labels:
  "distinct (map fst cols) \<Longrightarrow> set labels \<subseteq> set (map fst cols) \<Longrightarrow>
     map fst (take_labels labels cols) = labels"
  by (induction labels) (simp_all add: take_labels_def filter_label_unique)

text \<open>
  Claim C1, amended: \<open>select_dataset_columns\<close> returns without error, whatever names the
  catalog holds; the columns of the result are exactly the columns of the dataset whose
  name is a \<open>variable_name\<close> of the catalog; and, the dataset's column names being
  distinct, they appear in the order of the catalog (the catalog's names that label a
  column, in catalog order), not in the dataset's column order.
\<close>

theorem select_dataset_columns_catalog_order:
  "\<exists>out. select_dataset_columns df catalog = Inr out \<and>
         nrows out = nrows df \<and>
         set (columns out) = {col \<in> set (columns df). fst col \<in> variable_name ` set catalog} \<and>
         (distinct (column_names df) \<longrightarrow>
            column_names out =
              filter (\<lambda>v. v \<in> set (column_names df)) (map variable_name catalog))"
proof -
  let ?vars = "filter (\<lambda>v. v \<in> set (column_names df)) (map variable_name catalog)"
  let ?out = "df\<lparr>columns := take_labels ?vars (columns df)\<rparr>"
  have "select_dataset_columns df catalog = Inr ?out"
    by (simp add: select_dataset_columns_def getitem_list_def list_all_iff)
  moreover have "nrows ?out = nrows df" by simp
  moreover have "set (columns ?out) =
                   {col \<in> set (columns df). fst col \<in> variable_name ` set catalog}"
    by (auto simp: set_take_labels column_names_def)
  moreover have "column_names ?out = ?vars" if "distinct (column_names df)"
    using that by (simp add: column_names_def names_take_labels subset_iff)
  ultimately show ?thesis by blast
qed

theorem select_dataset_columns_catalog_order_witness:
  "distinct (column_names sample_df) \<and>
   (\<exists>out. select_dataset_columns sample_df sample_catalog = Inr out \<and>
          nrows out = nrows sample_df \<and>
          set (columns out) =
            {col \<in> set (columns sample_df). fst col \<in> variable_name ` set sample_catalog} \<and>
          column_names out =
            filter (\<lambda>v. v \<in> set (column_names sample_df)) (map variable_name sample_catalog))"
proof -
  have d: "distinct (column_names sample_df)"
    by code_simp
  with select_dataset_columns_catalog_order [of sample_df sample_catalog]
  show ?thesis by blast
qed

text \<open>
  The dataset has \<open>C1SCORE\<close> before \<open>C1MOCA\<close>, the catalog has \<open>C1MOCA\<close> first: the
  result has \<open>C1MOCA\<close> first, where the dataset's order asks for \<open>C1SCORE\<close> first.
\<close>

theorem select_dataset_columns_order_counterexample:
  "select_dataset_columns sample_df sample_catalog =
     Inr \<lparr>columns = [(''C1MOCA'', [Num 20, Num (-4), Num 3]),
                     (''C1SCORE'', [Num 24, Num (-4), NA])],
          nrows = 3\<rparr> \<and>
   filter (\<lambda>c. c \<in> set (map variable_name sample_catalog)) (column_names sample_df) =
     [''C1SCORE'', ''C1MOCA'']"
  by code_simp

subsection \<open>Assessment Tagger\<close>

lemma nrows_setitem: "nrows (setitem df name vals) = nrows df"
  by (simp add: setitem_def)

lemma column_names_setitem:
  "column_names (setitem df name vals) =
     (if name \<in> set (column_names df) then column_names df else column_names df @ [name])"
proof -
  have "fst \<circ> (\<lambda>col. if fst col = name then (name, vals) else col) = fst"
    by (auto simp: fun_eq_iff)
  then show ?thesis
    by (simp add: setitem_def column_names_def)
qed

lemma names_setitem: "set (column_names (setitem df name vals)) = insert name (set (column_names df))"
  by (auto simp: column_names_setitem)

lemma columns_setitem_other:
  "c \<noteq> name \<Longrightarrow> (c, vs) \<in> set (columns (setitem df name vals)) \<longleftrightarrow> (c, vs) \<in> set (columns df)"
  by (auto simp: setitem_def column_names_def)

lemma columns_setitem_same:
  "(name, vs) \<in> set (columns (setitem df name vals)) \<longleftrightarrow> vs = vals"
  by (auto simp: setitem_def column_names_def image_iff)

lemma set_columns_setitem:
  "set (columns (setitem df name vals)) \<subseteq> insert (name, vals) (set (columns df))"
  by (auto simp: setitem_def)

lemma wf_df_setitem:
  "wf_df df \<Longrightarrow> length vals = nrows df \<Longrightarrow> wf_df (setitem df name vals)"
  using set_columns_setitem [of df name vals]
  by (auto simp: wf_df_def list_all_iff nrows_setitem)

lemma exact_ints_setitem:
  "exact_ints df \<Longrightarrow> list_all exact_cell vals \<Longrightarrow> exact_ints (setitem df name vals)"
  using set_columns_setitem [of df name vals]
  by (auto simp: exact_ints_def list_all_iff)

lemma group_flag_iff:
  "group_flag df cols s i \<longleftrightarrow>
     (\<exists>c vs. (c, vs) \<in> set (columns df) \<and> c \<in> set cols \<and> is_valid s (vs ! i))"
proof -
  have "group_flag df cols s i \<longleftrightarrow>
          (\<exists>col \<in> set (columns df). fst col \<in> set cols \<and> is_valid s (snd col ! i))"
    by (simp add: group_flag_def list_ex_iff is_valid_iff)
  also have "\<dots> \<longleftrightarrow> (\<exists>c vs. (c, vs) \<in> set (columns df) \<and> c \<in> set cols \<and> is_valid s (vs ! i))"
    by (metis fst_conv snd_conv prod.collapse)
  finally show ?thesis .
qed

lemma group_flags_setitem:
  assumes "name \<notin> set cols"
  shows "group_flags (setitem df name vals) cols s = group_flags df cols s"
proof -
  have "group_flag (setitem df name vals) cols s i = group_flag df cols s i" for i
    unfolding group_flag_iff using assms columns_setitem_other [of _ name _ df vals]
    by metis
  then show ?thesis
    by (simp add: group_flags_def nrows_setitem)
qed

lemma group_flags_empty: "group_flags df [] s = replicate (nrows df) (Flag False)"
  by (simp add: group_flags_def group_flag_def list_ex_iff map_replicate_trivial)

lemma length_group_flags: "length (group_flags df cols s) = nrows df"
  by (simp add: group_flags_def)

lemma exact_group_flags: "list_all exact_cell (group_flags df cols s)"
  by (simp add: group_flags_def list_all_iff)

lemma is_valid_as_dtype: "exact_cell v \<Longrightarrow> is_valid s (as_dtype d v) = is_valid s v"
  by (cases "(d, v)" rule: as_dtype.cases)
     (simp_all add: is_valid_def notna_def float64_exact_def)

lemma list_ex_frame_values:
  assumes "\<forall>col \<in> set cols. i < length (snd col) \<and> list_all exact_cell (snd col)"
  shows "list_ex (is_valid s) (row_values (frame_values cols) i) \<longleftrightarrow>
           (\<exists>col \<in> set cols. is_valid s (snd col ! i))"
proof -
  have "is_valid s (map (as_dtype d) (snd col) ! i) = is_valid s (snd col ! i)"
    if "col \<in> set cols" for col d
  proof -
    from that assms have i: "i < length (snd col)" and "exact_cell (snd col ! i)"
      by (auto simp: list_all_length)
    then show ?thesis by (simp add: is_valid_as_dtype)
  qed
  then show ?thesis
    by (auto simp: list_ex_row_values frame_values_def Let_def)
qed

lemma any_valid_flags_present:
  assumes "wf_df out" and "exact_ints out" and "set cols \<subseteq> set (column_names out)"
  shows "any_valid_flags out cols s = Inr (group_flags out cols s)"
proof (cases "cols = []")
  case True
  then show ?thesis
    by (simp add: any_valid_flags_def group_flags_empty)
next
  case False
  from assms(3) have sub: "getitem_list out cols = Inr (out\<lparr>columns := take_labels cols (columns out)\<rparr>)"
    by (auto simp: getitem_list_def list_all_iff)
  have "list_ex (is_valid s) (row_values (frame_values (take_labels cols (columns out))) i) =
          group_flag out cols s i" if "i < nrows out" for i
  proof -
    have "\<forall>col \<in> set (take_labels cols (columns out)).
            i < length (snd col) \<and> list_all exact_cell (snd col)"
      using assms(1,2) that
      by (auto simp: set_take_labels wf_df_def exact_ints_def list_all_iff)
    from list_ex_frame_values [OF this] show ?thesis
      by (auto simp: set_take_labels group_flag_iff)
  qed
  with sub False show ?thesis
    by (simp add: any_valid_flags_def apply_rows_def group_flags_def)
qed

lemma any_valid_flags_missing:
  assumes "cols \<noteq> []" and "\<not> set cols \<subseteq> set (column_names out)"
  shows "any_valid_flags out cols s = Inl KeyError"
  using assms by (auto simp: any_valid_flags_def getitem_list_def list_all_iff)

lemma tag_assessments_result:
  assumes "wf_df df" and "exact_ints df"
      and "set mmse_cols \<subseteq> set (column_names df)"
      and "set moca_cols \<subseteq> insert ''has_MMSE'' (set (column_names df))"
  shows "tag_assessments df mmse_cols moca_cols s =
           Inr (setitem (setitem df ''has_MMSE'' (group_flags df mmse_cols s)) ''has_MOCA''
                  (group_flags (setitem df ''has_MMSE'' (group_flags df mmse_cols s)) moca_cols s))"
proof -
  let ?out = "setitem df ''has_MMSE'' (group_flags df mmse_cols s)"
  have "wf_df ?out" "exact_ints ?out"
    using assms(1,2)
    by (simp_all add: wf_df_setitem exact_ints_setitem length_group_flags exact_group_flags)
  moreover have "set moca_cols \<subseteq> set (column_names ?out)"
    using assms(4) by (simp add: names_setitem)
  ultimately have "any_valid_flags ?out moca_cols s = Inr (group_flags ?out moca_cols s)"
    by (rule any_valid_flags_present)
  then show ?thesis
    using any_valid_flags_present [OF assms(1,2,3), of s]
    by (simp add: tag_assessments_def Let_def)
qed

text \<open>
  Claim C5, amended: for a table whose integers, and a sentinel, that \<open>float64\<close> holds
  exactly, and two groups whose names all occur in the table, the second group not
  naming \<open>has_MMSE\<close>, \<open>tag_assessments\<close> returns a table of as many records whose
  column \<open>has_MMSE\<close> (\<open>has_MOCA\<close>) holds, for each record, whether some column of the
  first (second) group holds a value that is neither absent nor equal to the missing
  sentinel; for an empty group that column is \<open>False\<close> at every record.
\<close>

theorem tag_assessments_flags:
  assumes "wf_df df" and "exact_ints df" and "float64_exact missing_sentinel"
      and "set mmse_cols \<subseteq> set (column_names df)"
      and "set moca_cols \<subseteq> set (column_names df)"
      and "''has_MMSE'' \<notin> set moca_cols"
  shows "\<exists>out. tag_assessments df mmse_cols moca_cols missing_sentinel = Inr out \<and>
           nrows out = nrows df \<and>
           (\<forall>vs. (''has_MMSE'', vs) \<in> set (columns out) \<longleftrightarrow>
                   vs = group_flags df mmse_cols missing_sentinel) \<and>
           (\<forall>vs. (''has_MOCA'', vs) \<in> set (columns out) \<longleftrightarrow>
                   vs = group_flags df moca_cols missing_sentinel) \<and>
           (mmse_cols = [] \<longrightarrow>
              group_flags df mmse_cols missing_sentinel = replicate (nrows df) (Flag False)) \<and>
           (moca_cols = [] \<longrightarrow>
              group_flags df moca_cols missing_sentinel = replicate (nrows df) (Flag False))"
proof -
  let ?mmse = "group_flags df mmse_cols missing_sentinel"
  let ?out1 = "setitem df ''has_MMSE'' ?mmse"
  let ?moca = "group_flags df moca_cols missing_sentinel"
  let ?out = "setitem ?out1 ''has_MOCA'' ?moca"
  from assms(5) have "set moca_cols \<subseteq> insert ''has_MMSE'' (set (column_names df))" by auto
  from tag_assessments_result [OF assms(1,2,4) this]
  have "tag_assessments df mmse_cols moca_cols missing_sentinel = Inr ?out"
    by (simp add: group_flags_setitem [OF assms(6)])
  moreover have "nrows ?out = nrows df"
    by (simp add: nrows_setitem)
  moreover have "(''has_MMSE'', vs) \<in> set (columns ?out) \<longleftrightarrow> vs = ?mmse" for vs
    by (simp add: columns_setitem_other columns_setitem_same)
  moreover have "(''has_MOCA'', vs) \<in> set (columns ?out) \<longleftrightarrow> vs = ?moca" for vs
    by (simp add: columns_setitem_same)
  ultimately show ?thesis
    by (auto simp: group_flags_empty)
qed

lemma scores_df_ok: "wf_df scores_df" "exact_ints scores_df" "float64_exact (-4)"
  by code_simp+

theorem tag_assessments_flags_witness:
  "wf_df scores_df \<and> exact_ints scores_df \<and> float64_exact (-4) \<and>
   (\<exists>out. tag_assessments scores_df [''C1SCORE'', ''C1MMSE''] [''C1MOCA''] (-4) = Inr out \<and>
      nrows out = nrows scores_df \<and>
      (\<forall>vs. (''has_MMSE'', vs) \<in> set (columns out) \<longleftrightarrow>
              vs = [Flag True, Flag False, Flag True]) \<and>
      (\<forall>vs. (''has_MOCA'', vs) \<in> set (columns out) \<longleftrightarrow>
              vs = [Flag False, Flag False, Flag True])) \<and>
   (\<exists>out. tag_assessments scores_df [] [] (-4) = Inr out \<and>
      (\<forall>vs. (''has_MMSE'', vs) \<in> set (columns out) \<longleftrightarrow>
              vs = replicate (nrows scores_df) (Flag False)) \<and>
      (\<forall>vs. (''has_MOCA'', vs) \<in> set (columns out) \<longleftrightarrow>
              vs = replicate (nrows scores_df) (Flag False)))"
proof -
  have g1: "set [''C1SCORE'', ''C1MMSE''] \<subseteq> set (column_names scores_df)"
    and g2: "set [''C1MOCA''] \<subseteq> set (column_names scores_df)"
    and g3: "''has_MMSE'' \<notin> set [''C1MOCA'']"
    and e1: "set [] \<subseteq> set (column_names scores_df)"
    and e3: "''has_MMSE'' \<notin> set []"
    by (simp_all add: scores_df_def column_names_def)
  have f1: "group_flags scores_df [''C1SCORE'', ''C1MMSE''] (-4) = [Flag True, Flag False, Flag True]"
    and f2: "group_flags scores_df [''C1MOCA''] (-4) = [Flag False, Flag False, Flag True]"
    by code_simp+
  note t1 = tag_assessments_flags [OF scores_df_ok g1 g2 g3, unfolded f1 f2]
  note t2 = tag_assessments_flags [OF scores_df_ok e1 e1 e3]
  from t1 have
    "\<exists>out. tag_assessments scores_df [''C1SCORE'', ''C1MMSE''] [''C1MOCA''] (-4) = Inr out \<and>
      nrows out = nrows scores_df \<and>
      (\<forall>vs. (''has_MMSE'', vs) \<in> set (columns out) \<longleftrightarrow>
              vs = [Flag True, Flag False, Flag True]) \<and>
      (\<forall>vs. (''has_MOCA'', vs) \<in> set (columns out) \<longleftrightarrow>
              vs = [Flag False, Flag False, Flag True])"
    by blast
  moreover from t2 have
    "\<exists>out. tag_assessments scores_df [] [] (-4) = Inr out \<and>
      (\<forall>vs. (''has_MMSE'', vs) \<in> set (columns out) \<longleftrightarrow>
              vs = replicate (nrows scores_df) (Flag False)) \<and>
      (\<forall>vs. (''has_MOCA'', vs) \<in> set (columns out) \<longleftrightarrow>
              vs = replicate (nrows scores_df) (Flag False))"
    by auto
  ultimately show ?thesis using scores_df_ok by blast
qed

text \<open>
  The second group is read after \<open>has_MMSE\<close> has been assigned. On a table whose own
  column \<open>has_MMSE\<close> holds an absent value, with the second group naming that column,
  no column of the group holds a valid value in the table, and \<open>has_MOCA\<close> is true.
\<close>

theorem tag_assessments_reads_new_flag_counterexample:
  "set [''has_MMSE''] \<subseteq> set (column_names retagged_df) \<and>
   group_flags retagged_df [''has_MMSE''] (-4) = [Flag False] \<and>
   tag_assessments retagged_df [] [''has_MMSE''] (-4) =
     Inr \<lparr>columns = [(''has_MMSE'', [Flag False]), (''has_MOCA'', [Flag True])], nrows = 1\<rparr>"
  by code_simp

text \<open>
  A group of an integer column and a float column is read as \<open>float64\<close>: the integer
  \<open>2 ^ 53 + 1\<close> becomes \<open>2 ^ 53\<close>, which is the sentinel here, so the column \<open>A\<close> holds a
  value that differs from the sentinel and \<open>has_MMSE\<close> is false.
\<close>

lemma tag_assessments_float64_row:
  "set [''A'', ''B''] \<subseteq> set (column_names large_df) \<and>
   group_flags large_df [''A'', ''B''] 9007199254740992 = [Flag True] \<and>
   tag_assessments large_df [''A'', ''B''] [] 9007199254740992 =
     Inr \<lparr>columns = [(''A'', [IntV 9007199254740993]), (''B'', [NA]),
                     (''has_MMSE'', [Flag False]), (''has_MOCA'', [Flag False])],
          nrows = 1\<rparr>"
  by code_simp

text \<open>
  Claim C9, amended: \<open>tag_assessments\<close> fails with \<open>KeyError\<close> (no tagged table is
  returned) when the first group is non-empty and holds a name that is not a column of
  the table, or the second group is non-empty and holds a name that is neither a column
  of the table nor \<open>has_MMSE\<close>.
\<close>

theorem tag_assessments_missing_column:
  assumes "(mmse_cols \<noteq> [] \<and> \<not> set mmse_cols \<subseteq> set (column_names df)) \<or>
           (moca_cols \<noteq> [] \<and>
            \<not> set moca_cols \<subseteq> insert ''has_MMSE'' (set (column_names df)))"
  shows "tag_assessments df mmse_cols moca_cols missing_sentinel = Inl KeyError"
proof (cases "mmse_cols \<noteq> [] \<and> \<not> set mmse_cols \<subseteq> set (column_names df)")
  case True
  then show ?thesis
    by (simp add: tag_assessments_def any_valid_flags_missing)
next
  case False
  with assms have moca: "moca_cols \<noteq> []"
    "\<not> set moca_cols \<subseteq> insert ''has_MMSE'' (set (column_names df))" by auto
  show ?thesis
  proof (cases "any_valid_flags df mmse_cols missing_sentinel")
    case (Inl e)
    then have "e = KeyError"
      by (auto simp: any_valid_flags_def getitem_list_def split: if_splits sum.splits)
    with Inl show ?thesis
      by (simp add: tag_assessments_def)
  next
    case (Inr has_mmse)
    from moca have "any_valid_flags (setitem df ''has_MMSE'' has_mmse) moca_cols missing_sentinel =
                      Inl KeyError"
      by (intro any_valid_flags_missing) (simp_all add: names_setitem)
    with Inr show ?thesis
      by (simp add: tag_assessments_def)
  qed
qed

theorem tag_assessments_missing_column_witness:
  "tag_assessments sample_df [''C1SCORE'', ''C1MISSING''] [''C1MOCA''] (-4) = Inl KeyError \<and>
   tag_assessments sample_df [''C1SCORE''] [''C1MISSING''] (-4) = Inl KeyError"
proof -
  have "[''C1SCORE'', ''C1MISSING''] \<noteq> [] \<and>
        \<not> set [''C1SCORE'', ''C1MISSING''] \<subseteq> set (column_names sample_df)"
    by (simp add: sample_df_def column_names_def)
  moreover have "[''C1MISSING''] \<noteq> [] \<and>
        \<not> set [''C1MISSING''] \<subseteq> insert ''has_MMSE'' (set (column_names sample_df))"
    by (simp add: sample_df_def column_names_def)
  ultimately show ?thesis
    using tag_assessments_missing_column [of "[''C1SCORE'', ''C1MISSING'']" sample_df "[''C1MOCA'']" "-4"]
          tag_assessments_missing_column [of "[''C1SCORE'']" sample_df "[''C1MISSING'']" "-4"]
    by blast
qed

text \<open>
  \<open>has_MMSE\<close> is not a column of the table, the second group names it, and the call
  returns a tagged table: the lookup finds the column assigned just before.
\<close>

theorem tag_assessments_new_flag_found_counterexample:
  "[''has_MMSE''] \<noteq> [] \<and> ''has_MMSE'' \<notin> set (column_names one_score_df) \<and>
   tag_assessments one_score_df [] [''has_MMSE''] (-4) =
     Inr \<lparr>columns = [(''C1SCORE'', [Num 24]), (''has_MMSE'', [Flag False]),
                     (''has_MOCA'', [Flag True])],
          nrows = 1\<rparr>"
  by code_simp

subsection \<open>Availability Summarizer\<close>

lemma permutation_of_iff: "permutation_of xs ys \<longleftrightarrow> mset xs = mset ys"
proof (induction xs arbitrary: ys)
  case Nil
  then show ?case by auto
next
  case (Cons x xs)
  show ?case
  proof (cases "x \<in> set ys")
    case True
    then have "add_mset x (mset (remove1 x ys)) = mset ys"
      by simp
    then have "mset xs = mset (remove1 x ys) \<longleftrightarrow> add_mset x (mset xs) = mset ys"
      by (metis add_mset_remove_trivial)
    with True Cons.IH [of "remove1 x ys"] show ?thesis by simp
  next
    case False
    then have "add_mset x (mset xs) \<noteq> mset ys"
      by (metis set_mset_mset union_single_eq_member)
    with False show ?thesis by simp
  qed
qed

lemma percentage_total: "\<exists>p. percentage c n = Inr p"
  by (simp add: percentage_def truediv_def)

lemma row_of_total: "\<exists>r. row_of df s col = Inr r"
  using percentage_total [of "count_valid s (snd col)" "nrows df"]
  by (auto simp: row_of_def Let_def)

lemma row_of_fields:
  assumes "row_of df s col = Inr r"
  shows "Column r = fst col" and "Valid_Data_Count r = count_valid s (snd col)"
    and "percentage (Valid_Data_Count r) (nrows df) = Inr (Percentage r)"
  using assms by (auto simp: row_of_def Let_def split: sum.splits)

lemma availability_rows_origin:
  "availability_rows df exclude s cols = Inr rows \<Longrightarrow> r \<in> set rows \<Longrightarrow>
     \<exists>col \<in> set cols. fst col \<notin> set exclude \<and> row_of df s col = Inr r"
proof (induction cols arbitrary: rows)
  case Nil
  then show ?case by simp
next
  case (Cons col cols)
  obtain c vs where col: "col = (c, vs)" by (cases col)
  show ?case
  proof (cases "c \<in> set exclude")
    case True
    with Cons col show ?thesis by auto
  next
    case False
    with Cons.prems(1) col obtain r0 rest where
      r0: "row_of df s col = Inr r0" and
      rest: "availability_rows df exclude s cols = Inr rest" and
      rows: "rows = r0 # rest"
      by (auto split: if_splits sum.splits)
    from Cons.prems(2) rows have "r = r0 \<or> r \<in> set rest" by auto
    then show ?thesis
    proof
      assume "r = r0" with r0 False col show ?thesis by auto
    next
      assume "r \<in> set rest"
      from Cons.IH [OF rest this] show ?thesis by auto
    qed
  qed
qed

lemma availability_rows_columns:
  "availability_rows df exclude s cols = Inr rows \<Longrightarrow>
     map Column rows = filter (\<lambda>c. c \<notin> set exclude) (map fst cols)"
proof (induction cols arbitrary: rows)
  case Nil
  then show ?case by simp
next
  case (Cons col cols)
  obtain c vs where col: "col = (c, vs)" by (cases col)
  show ?case
  proof (cases "c \<in> set exclude")
    case True
    with Cons col show ?thesis by auto
  next
    case False
    with Cons.prems(1) col obtain r0 rest where
      r0: "row_of df s col = Inr r0" and
      rest: "availability_rows df exclude s cols = Inr rest" and
      rows: "rows = r0 # rest"
      by (auto split: if_splits sum.splits)
    from Cons.IH [OF rest] rows False col row_of_fields(1) [OF r0] show ?thesis by simp
  qed
qed

lemma distinct_filter_eq_le: "distinct xs \<Longrightarrow> length (filter (\<lambda>c. c = x) xs) \<le> 1"
  by (induction xs) (auto simp: filter_empty_conv)

lemma availability_rows_ok:
  "distinct (column_names df) \<Longrightarrow> \<exists>rows. availability_rows df exclude s cols = Inr rows"
proof (induction cols)
  case Nil
  then show ?case by simp
next
  case (Cons col cols)
  obtain c vs where col: "col = (c, vs)" by (cases col)
  from Cons.prems have "\<not> 1 < length (filter (\<lambda>x. x = c) (column_names df))"
    using distinct_filter_eq_le [of "column_names df" c] by simp
  moreover obtain r where "row_of df s (c, vs) = Inr r"
    using row_of_total by blast
  ultimately show ?case using Cons col by auto
qed

lemma count_valid_spec: "count_valid s vs = int (spec_valid_count s vs)"
  by (induction vs) (simp_all add: count_valid_def spec_valid_count_def is_valid_iff)

lemma spec_valid_count_le: "spec_valid_count s vs \<le> length vs"
  by (simp add: spec_valid_count_def)

lemma sort_values_desc_exists: "\<exists>summary. sort_values_desc rows summary"
proof -
  let ?out = "rev (sort_key Valid_Data_Count rows)"
  have "permutation_of rows ?out"
    by (simp add: permutation_of_iff)
  moreover have "sorted_wrt (\<lambda>a b. Valid_Data_Count a \<ge> Valid_Data_Count b) ?out"
    using sorted_sort_key [of Valid_Data_Count rows]
    by (simp add: sorted_wrt_rev sorted_map)
  ultimately show ?thesis
    unfolding sort_values_desc_def by blast
qed

lemma summarize_availability_Inr:
  "summarize_availability df exclude s (Inr summary) \<longleftrightarrow>
     (\<exists>rows. availability_rows df exclude s (columns df) = Inr rows \<and> rows \<noteq> [] \<and>
             sort_values_desc rows summary)"
  by (auto simp: summarize_availability_def split: sum.splits)

lemma descending_keys_unique:
  assumes "sorted_wrt (\<lambda>a b. Valid_Data_Count a \<ge> Valid_Data_Count b) summary"
      and "mset summary = mset rows"
  shows "map Valid_Data_Count summary = rev (sort (map Valid_Data_Count rows))"
proof -
  have "sorted (rev (map Valid_Data_Count summary))"
    using assms(1) by (simp add: sorted_wrt_rev sorted_wrt_map rev_map [symmetric] del: rev_map)
  moreover have "mset (rev (map Valid_Data_Count summary)) = mset (map Valid_Data_Count rows)"
    using assms(2) by (metis mset_map mset_rev)
  ultimately have "sort (map Valid_Data_Count rows) = rev (map Valid_Data_Count summary)"
    by (intro properties_for_sort) simp_all
  then show ?thesis by simp
qed

lemma descending_distinct_unique:
  assumes "sorted_wrt (\<lambda>a b. Valid_Data_Count a \<ge> Valid_Data_Count b) summary"
      and "mset summary = mset rows"
      and "distinct (map Valid_Data_Count rows)"
  shows "summary = rev (sort_key Valid_Data_Count rows)"
proof -
  let ?f = "\<lambda>r. - Valid_Data_Count r"
  let ?out = "rev (sort_key Valid_Data_Count rows)"
  have set_eq: "set summary = set rows" using assms(2) by (rule mset_eq_setD)
  have inj: "inj_on Valid_Data_Count (set rows)" and drows: "distinct rows"
    using assms(3) by (simp_all add: distinct_map)
  have dsum: "distinct summary"
    using assms(2) drows by (metis mset_eq_imp_distinct_iff)
  have inj': "inj_on ?f (set summary \<union> set ?out)"
    using inj set_eq by (auto simp: inj_on_def)
  have "sorted (map ?f summary)"
    using assms(1) by (simp add: sorted_wrt_map)
  moreover have "distinct (map ?f summary)"
    using dsum inj' by (simp add: distinct_map inj_on_Un)
  moreover have "sorted (map ?f ?out)"
    using sorted_sort_key [of Valid_Data_Count rows]
    by (simp add: sorted_wrt_map sorted_wrt_rev sorted_map)
  moreover have "distinct (map ?f ?out)"
    using drows inj' by (simp add: distinct_map inj_on_Un)
  moreover have "set summary = set ?out" using set_eq by simp
  ultimately show ?thesis
    using inj' by (intro map_sorted_distinct_set_unique [of ?f]) 
qed

text \<open>
  Claim C3, amended: every summary that \<open>summarize_availability\<close> can return is in
  descending order of \<open>Valid_Data_Count\<close> and holds exactly the rows of the columns that
  are not excluded; its sequence of counts is the sorted one, and when no two columns
  have the same count the summary is the only one possible. The order of rows with
  equal counts is not fixed (the sort is not asked to be stable).
\<close>

theorem summarize_availability_descending:
  assumes "summarize_availability df exclude missing_sentinel (Inr summary)"
  shows "sorted_wrt (\<lambda>a b. Valid_Data_Count a \<ge> Valid_Data_Count b) summary \<and>
         (\<exists>rows. availability_rows df exclude missing_sentinel (columns df) = Inr rows \<and>
                 map Column rows = filter (\<lambda>c. c \<notin> set exclude) (column_names df) \<and>
                 mset summary = mset rows \<and>
                 map Valid_Data_Count summary = rev (sort (map Valid_Data_Count rows)) \<and>
                 (distinct (map Valid_Data_Count rows) \<longrightarrow>
                    summary = rev (sort_key Valid_Data_Count rows)))"
proof -
  from assms obtain rows where
    rows: "availability_rows df exclude missing_sentinel (columns df) = Inr rows" and
    sorted: "sorted_wrt (\<lambda>a b. Valid_Data_Count a \<ge> Valid_Data_Count b) summary" and
    perm: "mset summary = mset rows"
    by (auto simp: summarize_availability_Inr sort_values_desc_def permutation_of_iff)
  have "map Column rows = filter (\<lambda>c. c \<notin> set exclude) (column_names df)"
    using availability_rows_columns [OF rows] by (simp add: column_names_def)
  moreover note descending_keys_unique [OF sorted perm]
  moreover have "summary = rev (sort_key Valid_Data_Count rows)"
    if "distinct (map Valid_Data_Count rows)"
    using that by (rule descending_distinct_unique [OF sorted perm])
  ultimately show ?thesis using rows sorted perm by blast
qed

theorem summarize_availability_descending_witness:
  "summarize_availability scores_df [''C1MOCA'', ''has_MMSE'', ''has_MOCA''] (-4)
     (Inr [\<lparr>Column = ''C1SCORE'', Valid_Data_Count = 2,
              Percentage = 2345624805922133 / 35184372088832\<rparr>,
           \<lparr>Column = ''C1MMSE'', Valid_Data_Count = 1,
              Percentage = 2345624805922133 / 70368744177664\<rparr>]) \<and>
   sorted_wrt (\<lambda>a b. Valid_Data_Count a \<ge> Valid_Data_Count b)
     [\<lparr>Column = ''C1SCORE'', Valid_Data_Count = 2,
        Percentage = 2345624805922133 / 35184372088832\<rparr>,
      \<lparr>Column = ''C1MMSE'', Valid_Data_Count = 1,
        Percentage = 2345624805922133 / 70368744177664\<rparr>] \<and>
   (\<exists>rows. availability_rows scores_df [''C1MOCA'', ''has_MMSE'', ''has_MOCA''] (-4)
             (columns scores_df) = Inr rows \<and>
           distinct (map Valid_Data_Count rows) \<and>
           [\<lparr>Column = ''C1SCORE'', Valid_Data_Count = 2,
              Percentage = 2345624805922133 / 35184372088832\<rparr>,
            \<lparr>Column = ''C1MMSE'', Valid_Data_Count = 1,
              Percentage = 2345624805922133 / 70368744177664\<rparr>] =
             rev (sort_key Valid_Data_Count rows))"
proof -
  let ?summary = "[\<lparr>Column = ''C1SCORE'', Valid_Data_Count = 2,
              Percentage = 2345624805922133 / 35184372088832\<rparr>,
           \<lparr>Column = ''C1MMSE'', Valid_Data_Count = 1,
              Percentage = 2345624805922133 / 70368744177664\<rparr>]"
  have s: "summarize_availability scores_df [''C1MOCA'', ''has_MMSE'', ''has_MOCA''] (-4)
             (Inr ?summary)"
    by code_simp
  have r: "availability_rows scores_df [''C1MOCA'', ''has_MMSE'', ''has_MOCA''] (-4)
             (columns scores_df) = Inr ?summary"
    by code_simp
  have d: "distinct (map Valid_Data_Count ?summary)" by simp
  from summarize_availability_descending [OF s] r d s show ?thesis
    by auto
qed

text \<open>
  A tagged table of 18 data columns, more than the 16 elements that the default
  quicksort of numpy sorts by insertion. This summary is the one that pandas' descending
  argsort (reverse, sort ascending, reverse) gives with that quicksort: \<open>V10\<close> comes
  first and \<open>V08\<close> second, both of count 1, where the column order has \<open>V02\<close> first.
\<close>

theorem summarize_availability_ties_counterexample:
  "column_names tie_df =
     [''V01'', ''V02'', ''V03'', ''V04'', ''V05'', ''V06'', ''V07'', ''V08'', ''V09'',
      ''V10'', ''V11'', ''V12'', ''V13'', ''V14'', ''V15'', ''V16'', ''V17'', ''V18'',
      ''has_MMSE'', ''has_MOCA''] \<and>
   summarize_availability tie_df [''has_MMSE'', ''has_MOCA''] (-4) (Inr tie_summary) \<and>
   map Column tie_summary =
     [''V10'', ''V08'', ''V16'', ''V14'', ''V12'', ''V02'', ''V18'', ''V06'', ''V04'',
      ''V07'', ''V09'', ''V11'', ''V05'', ''V13'', ''V15'', ''V03'', ''V17'', ''V01''] \<and>
   map Valid_Data_Count tie_summary = [1, 1, 1, 1, 1, 1, 1, 1, 1, 0, 0, 0, 0, 0, 0, 0, 0, 0] \<and>
   \<not> ties_in_column_order (column_names tie_df) tie_summary"
  by code_simp

text \<open>
  Claim C4, amended: for a table of \<open>n\<close> records whose integers, and a sentinel, that
  \<open>float64\<close> holds exactly, a summary is returned when the column names are distinct and
  some column is not excluded (also for \<open>n = 0\<close>, where no division is made); every row
  of a returned summary is the row of a column that is not excluded, its
  \<open>Valid_Data_Count\<close> is the number of that column's values that are neither absent nor
  equal to the missing sentinel, which is at most \<open>n\<close>; its \<open>Percentage\<close> is the double
  \<open>count / n * 100\<close>, within a relative \<open>2 ^ -51\<close> of \<open>100 * count / n\<close>, and it is 0 when
  \<open>n = 0\<close> or the count is 0 and 100 when the count is \<open>n\<close>; and every column that is not
  excluded has its row.
\<close>

theorem summarize_availability_counts:
  assumes "wf_df df" and "exact_ints df" and "float64_exact missing_sentinel"
  shows "(distinct (column_names df) \<and> (\<exists>c \<in> set (column_names df). c \<notin> set exclude) \<longrightarrow>
            (\<exists>summary. summarize_availability df exclude missing_sentinel (Inr summary))) \<and>
         (\<forall>summary. summarize_availability df exclude missing_sentinel (Inr summary) \<longrightarrow>
            (\<forall>r \<in> set summary.
               Column r \<notin> set exclude \<and>
               (\<exists>vs. (Column r, vs) \<in> set (columns df) \<and>
                     Valid_Data_Count r = int (spec_valid_count missing_sentinel vs)) \<and>
               0 \<le> Valid_Data_Count r \<and> Valid_Data_Count r \<le> int (nrows df) \<and>
               percentage (Valid_Data_Count r) (nrows df) = Inr (Percentage r) \<and>
               \<bar>Percentage r - 100 * of_int (Valid_Data_Count r) / of_nat (nrows df)\<bar>
                 \<le> (100 * of_int (Valid_Data_Count r) / of_nat (nrows df)) / 2 ^ 51 \<and>
               (nrows df = 0 \<longrightarrow> Percentage r = 0) \<and>
               (Valid_Data_Count r = 0 \<longrightarrow> Percentage r = 0) \<and>
               (nrows df \<noteq> 0 \<and> Valid_Data_Count r = int (nrows df) \<longrightarrow> Percentage r = 100)) \<and>
            (\<forall>col \<in> set (columns df).
               fst col \<notin> set exclude \<longrightarrow> (\<exists>r \<in> set summary. Column r = fst col)))"
proof (intro conjI allI impI)
  assume a: "distinct (column_names df) \<and> (\<exists>c \<in> set (column_names df). c \<notin> set exclude)"
  then obtain rows where
    rows: "availability_rows df exclude missing_sentinel (columns df) = Inr rows"
    using availability_rows_ok by blast
  from a have "filter (\<lambda>c. c \<notin> set exclude) (map fst (columns df)) \<noteq> []"
    by (auto simp: column_names_def filter_empty_conv)
  with availability_rows_columns [OF rows] have "rows \<noteq> []" by auto
  with rows sort_values_desc_exists [of rows]
  show "\<exists>summary. summarize_availability df exclude missing_sentinel (Inr summary)"
    unfolding summarize_availability_Inr by blast
next
  fix summary
  assume "summarize_availability df exclude missing_sentinel (Inr summary)"
  then obtain rows where
    rows: "availability_rows df exclude missing_sentinel (columns df) = Inr rows" and
    perm: "mset summary = mset rows"
    by (auto simp: summarize_availability_Inr sort_values_desc_def permutation_of_iff)
  from perm have set_eq: "set summary = set rows"
    by (rule mset_eq_setD)
  show "\<forall>r \<in> set summary.
               Column r \<notin> set exclude \<and>
               (\<exists>vs. (Column r, vs) \<in> set (columns df) \<and>
                     Valid_Data_Count r = int (spec_valid_count missing_sentinel vs)) \<and>
               0 \<le> Valid_Data_Count r \<and> Valid_Data_Count r \<le> int (nrows df) \<and>
               percentage (Valid_Data_Count r) (nrows df) = Inr (Percentage r) \<and>
               \<bar>Percentage r - 100 * of_int (Valid_Data_Count r) / of_nat (nrows df)\<bar>
                 \<le> (100 * of_int (Valid_Data_Count r) / of_nat (nrows df)) / 2 ^ 51 \<and>
               (nrows df = 0 \<longrightarrow> Percentage r = 0) \<and>
               (Valid_Data_Count r = 0 \<longrightarrow> Percentage r = 0) \<and>
               (nrows df \<noteq> 0 \<and> Valid_Data_Count r = int (nrows df) \<longrightarrow> Percentage r = 100)"
  proof
    fix r assume "r \<in> set summary"
    with set_eq availability_rows_origin [OF rows] obtain col where
      col: "col \<in> set (columns df)" "fst col \<notin> set exclude" and
      r: "row_of df missing_sentinel col = Inr r"
      by blast
    note f = row_of_fields [OF r]
    from col(1) assms(1) have len: "length (snd col) = nrows df"
      by (simp add: wf_df_def list_all_iff)
    have cnt: "Valid_Data_Count r = int (spec_valid_count missing_sentinel (snd col))"
      by (simp add: f(2) count_valid_spec)
    then have nonneg: "0 \<le> Valid_Data_Count r" by simp
    have "(Column r, snd col) \<in> set (columns df)"
      using col(1) by (simp add: f(1))
    moreover have "Column r \<notin> set exclude"
      using col(2) by (simp add: f(1))
    moreover have le: "Valid_Data_Count r \<le> int (nrows df)"
      using spec_valid_count_le [of missing_sentinel "snd col"] len cnt by simp
    moreover note percentage_error [OF nonneg f(3)]
    moreover have "Percentage r = 0" if "nrows df = 0"
      using f(3) that by (simp add: percentage_zero_rows)
    moreover have "Percentage r = 0" if "Valid_Data_Count r = 0"
      using percentage_error [OF nonneg f(3)] that by simp
    moreover have "Percentage r = 100" if "nrows df \<noteq> 0 \<and> Valid_Data_Count r = int (nrows df)"
      using f(3) that percentage_full [of "nrows df"] by simp
    ultimately show "Column r \<notin> set exclude \<and>
               (\<exists>vs. (Column r, vs) \<in> set (columns df) \<and>
                     Valid_Data_Count r = int (spec_valid_count missing_sentinel vs)) \<and>
               0 \<le> Valid_Data_Count r \<and> Valid_Data_Count r \<le> int (nrows df) \<and>
               percentage (Valid_Data_Count r) (nrows df) = Inr (Percentage r) \<and>
               \<bar>Percentage r - 100 * of_int (Valid_Data_Count r) / of_nat (nrows df)\<bar>
                 \<le> (100 * of_int (Valid_Data_Count r) / of_nat (nrows df)) / 2 ^ 51 \<and>
               (nrows df = 0 \<longrightarrow> Percentage r = 0) \<and>
               (Valid_Data_Count r = 0 \<longrightarrow> Percentage r = 0) \<and>
               (nrows df \<noteq> 0 \<and> Valid_Data_Count r = int (nrows df) \<longrightarrow> Percentage r = 100)"
      using cnt nonneg f(3) by blast
  qed
  show "\<forall>col \<in> set (columns df).
               fst col \<notin> set exclude \<longrightarrow> (\<exists>r \<in> set summary. Column r = fst col)"
  proof (intro ballI impI)
    fix col assume col: "col \<in> set (columns df)" "fst col \<notin> set exclude"
    then have "fst col \<in> set (filter (\<lambda>c. c \<notin> set exclude) (map fst (columns df)))"
      by auto
    with availability_rows_columns [OF rows] have "fst col \<in> set (map Column rows)"
      by simp
    with set_eq show "\<exists>r \<in> set summary. Column r = fst col"
      by auto
  qed
qed

lemma ratio_df_ok: "wf_df ratio_df" "exact_ints ratio_df" "float64_exact (-4)"
  by code_simp+

lemma empty_df_ok: "wf_df empty_df" "exact_ints empty_df" "float64_exact (-4)"
  by code_simp+

theorem summarize_availability_counts_witness:
  "wf_df ratio_df \<and> exact_ints ratio_df \<and> float64_exact (-4) \<and>
   distinct (column_names ratio_df) \<and>
   (\<exists>c \<in> set (column_names ratio_df). c \<notin> set [''has_MMSE'', ''has_MOCA'']) \<and>
   (\<exists>summary. summarize_availability ratio_df [''has_MMSE'', ''has_MOCA''] (-4) (Inr summary)) \<and>
   summarize_availability ratio_df [''has_MMSE'', ''has_MOCA''] (-4)
     (Inr [\<lparr>Column = ''C1SCORE'', Valid_Data_Count = 11,
              Percentage = 7740561859543041 / 140737488355328\<rparr>]) \<and>
   (\<exists>vs. (''C1SCORE'', vs) \<in> set (columns ratio_df) \<and> 11 = int (spec_valid_count (-4) vs)) \<and>
   (11 :: int) \<le> int (nrows ratio_df) \<and>
   percentage 11 (nrows ratio_df) = Inr (7740561859543041 / 140737488355328) \<and>
   \<bar>7740561859543041 / 140737488355328 - 100 * of_int 11 / of_nat (nrows ratio_df)\<bar>
     \<le> (100 * of_int 11 / of_nat (nrows ratio_df) :: rat) / 2 ^ 51 \<and>
   wf_df empty_df \<and> exact_ints empty_df \<and> nrows empty_df = 0 \<and>
   (\<exists>summary. summarize_availability empty_df [''has_MMSE'', ''has_MOCA''] (-4) (Inr summary)) \<and>
   summarize_availability empty_df [''has_MMSE'', ''has_MOCA''] (-4)
     (Inr [\<lparr>Column = ''C1SCORE'', Valid_Data_Count = 0, Percentage = 0\<rparr>,
           \<lparr>Column = ''C1MOCA'', Valid_Data_Count = 0, Percentage = 0\<rparr>])"
proof -
  let ?row = "\<lparr>Column = ''C1SCORE'', Valid_Data_Count = 11,
              Percentage = 7740561859543041 / 140737488355328\<rparr>"
  have d: "distinct (column_names ratio_df) \<and>
           (\<exists>c \<in> set (column_names ratio_df). c \<notin> set [''has_MMSE'', ''has_MOCA''])"
    by code_simp
  have de: "distinct (column_names empty_df) \<and>
           (\<exists>c \<in> set (column_names empty_df). c \<notin> set [''has_MMSE'', ''has_MOCA''])"
    by code_simp
  have s: "summarize_availability ratio_df [''has_MMSE'', ''has_MOCA''] (-4) (Inr [?row])"
    by code_simp
  have e: "summarize_availability empty_df [''has_MMSE'', ''has_MOCA''] (-4)
     (Inr [\<lparr>Column = ''C1SCORE'', Valid_Data_Count = 0, Percentage = 0\<rparr>,
           \<lparr>Column = ''C1MOCA'', Valid_Data_Count = 0, Percentage = 0\<rparr>])"
    by code_simp
  have n0: "nrows empty_df = 0" by (simp add: empty_df_def)
  note t = summarize_availability_counts [OF ratio_df_ok, of "[''has_MMSE'', ''has_MOCA'']"]
  note te = summarize_availability_counts [OF empty_df_ok, of "[''has_MMSE'', ''has_MOCA'']"]
  from t d have ex: "\<exists>summary. summarize_availability ratio_df [''has_MMSE'', ''has_MOCA''] (-4) (Inr summary)"
    by blast
  from te de have exe: "\<exists>summary. summarize_availability empty_df [''has_MMSE'', ''has_MOCA''] (-4) (Inr summary)"
    by blast
  have "?row \<in> set [?row]" by simp
  with t s have
    "(\<exists>vs. (Column ?row, vs) \<in> set (columns ratio_df) \<and>
            Valid_Data_Count ?row = int (spec_valid_count (-4) vs)) \<and>
      Valid_Data_Count ?row \<le> int (nrows ratio_df) \<and>
      percentage (Valid_Data_Count ?row) (nrows ratio_df) = Inr (Percentage ?row) \<and>
      \<bar>Percentage ?row - 100 * of_int (Valid_Data_Count ?row) / of_nat (nrows ratio_df)\<bar>
         \<le> (100 * of_int (Valid_Data_Count ?row) / of_nat (nrows ratio_df)) / 2 ^ 51"
    by blast
  then have
    "(\<exists>vs. (''C1SCORE'', vs) \<in> set (columns ratio_df) \<and> 11 = int (spec_valid_count (-4) vs)) \<and>
     (11 :: int) \<le> int (nrows ratio_df) \<and>
     percentage 11 (nrows ratio_df) = Inr (7740561859543041 / 140737488355328) \<and>
     \<bar>7740561859543041 / 140737488355328 - 100 * of_int 11 / of_nat (nrows ratio_df)\<bar>
       \<le> (100 * of_int 11 / of_nat (nrows ratio_df) :: rat) / 2 ^ 51"
    by (simp only: summary_row.simps)
  with ratio_df_ok empty_df_ok d s e ex exe n0 show ?thesis by blast
qed

text \<open>
  11 valid values of 20: \<open>100 * 11 / 20\<close> is 55, also when computed in doubles, and the
  code's \<open>11 / 20 * 100\<close> is the next double above 55 (55.00000000000001).
\<close>

theorem summarize_availability_percentage_counterexample:
  "summarize_availability ratio_df [''has_MMSE'', ''has_MOCA''] (-4)
     (Inr [\<lparr>Column = ''C1SCORE'', Valid_Data_Count = 11,
              Percentage = 7740561859543041 / 140737488355328\<rparr>]) \<and>
   \<not> summarize_availability ratio_df [''has_MMSE'', ''has_MOCA''] (-4)
     (Inr [\<lparr>Column = ''C1SCORE'', Valid_Data_Count = 11, Percentage = 55\<rparr>]) \<and>
   (100 * 11 / 20 :: rat) = 55 \<and>
   binary64 (binary64 (100 * 11) / 20) = 55 \<and>
   (7740561859543041 / 140737488355328 :: rat) \<noteq> 55"
  by code_simp

end
